theory Spec2Isabelle
  imports Main "HOL-Library.Word"
begin

section \<open>Strings and values of the host language\<close>

text \<open>
  Strings are lists of characters. The model's alphabet is ASCII: \<open>toLowerCase\<close> maps
  the letters \<open>A\<close>..\<open>Z\<close> to \<open>a\<close>..\<open>z\<close> and leaves every other character as it is.
\<close>

definition toLowerCase_char :: "char \<Rightarrow> char" where
  "toLowerCase_char c =
     (let n = (of_char c :: nat) in if 65 \<le> n \<and> n \<le> 90 then char_of (n + 32) else c)"

definition toLowerCase :: "string \<Rightarrow> string" where
  "toLowerCase s = map toLowerCase_char s"

definition startsWith :: "string \<Rightarrow> string \<Rightarrow> bool" where
  \<comment> \<open>\<open>s.startsWith(p)\<close>\<close>
  "startsWith s p = (take (length p) s = p)"

definition includes_elem :: "'a list \<Rightarrow> 'a \<Rightarrow> bool" where
  \<comment> \<open>\<open>xs.includes(x)\<close>, for an array and for the characters of a string\<close>
  "includes_elem xs x = (x \<in> set xs)"

fun split :: "string \<Rightarrow> char \<Rightarrow> string list" where
  \<comment> \<open>\<open>s.split(sep)\<close> for a separator of one character; the result is never empty\<close>
  "split [] sep = [[]]"
| "split (c # cs) sep =
     (if c = sep then [] # split cs sep
      else (case split cs sep of [] \<Rightarrow> [[c]] | w # ws \<Rightarrow> (c # w) # ws))"

text \<open>
  A value that a property lookup can yield: a string, \<open>undefined\<close>, or a function or
  object of the runtime, named by the way it is reached.
\<close>

datatype js_value = Str string | Undefined | Builtin string

fun truthy :: "js_value \<Rightarrow> bool" where
  "truthy (Str s) = (s \<noteq> [])"
| "truthy Undefined = False"
| "truthy (Builtin b) = True"

text \<open>
  The properties every object literal inherits from \<open>Object.prototype\<close>. A lookup
  \<open>obj[key]\<close> reads the object's own property when it has one, then the inherited one,
  and is \<open>undefined\<close> otherwise.
\<close>

definition Object_prototype :: "(string \<times> js_value) list" where
  "Object_prototype =
     [(''constructor'', Builtin ''Object''),
      (''__defineGetter__'', Builtin ''Object.prototype.__defineGetter__''),
      (''__defineSetter__'', Builtin ''Object.prototype.__defineSetter__''),
      (''hasOwnProperty'', Builtin ''Object.prototype.hasOwnProperty''),
      (''__lookupGetter__'', Builtin ''Object.prototype.__lookupGetter__''),
      (''__lookupSetter__'', Builtin ''Object.prototype.__lookupSetter__''),
      (''isPrototypeOf'', Builtin ''Object.prototype.isPrototypeOf''),
      (''propertyIsEnumerable'', Builtin ''Object.prototype.propertyIsEnumerable''),
      (''toString'', Builtin ''Object.prototype.toString''),
      (''valueOf'', Builtin ''Object.prototype.valueOf''),
      (''__proto__'', Builtin ''Object.prototype''),
      (''toLocaleString'', Builtin ''Object.prototype.toLocaleString'')]"

definition get_property :: "(string \<times> string) list \<Rightarrow> string \<Rightarrow> js_value" where
  "get_property own key =
     (case map_of own key of
        Some v \<Rightarrow> Str v
      | None \<Rightarrow> (case map_of Object_prototype key of Some v \<Rightarrow> v | None \<Rightarrow> Undefined))"

section \<open>Format table and MIME resolution\<close>

record format_info =
  "value" :: string
  label :: string
  mime :: string

definition IMAGE_FORMATS :: "format_info list" where
  "IMAGE_FORMATS =
     [\<lparr>value = ''jpg'', label = ''JPEG'', mime = ''image/jpeg''\<rparr>,
      \<lparr>value = ''jpeg'', label = ''JPEG'', mime = ''image/jpeg''\<rparr>,
      \<lparr>value = ''png'', label = ''PNG'', mime = ''image/png''\<rparr>,
      \<lparr>value = ''webp'', label = ''WebP'', mime = ''image/webp''\<rparr>,
      \<lparr>value = ''gif'', label = ''GIF'', mime = ''image/gif''\<rparr>,
      \<lparr>value = ''bmp'', label = ''BMP'', mime = ''image/bmp''\<rparr>,
      \<lparr>value = ''tiff'', label = ''TIFF'', mime = ''image/tiff''\<rparr>,
      \<lparr>value = ''tif'', label = ''TIFF'', mime = ''image/tiff''\<rparr>,
      \<lparr>value = ''avif'', label = ''AVIF'', mime = ''image/avif''\<rparr>,
      \<lparr>value = ''ico'', label = ''ICO'', mime = ''image/x-icon''\<rparr>]"

definition mimeMap :: "(string \<times> string) list" where
  "mimeMap =
     [(''jpg'', ''image/jpeg''),
      (''jpeg'', ''image/jpeg''),
      (''png'', ''image/png''),
      (''webp'', ''image/webp''),
      (''gif'', ''image/gif''),
      (''bmp'', ''image/bmp''),
      (''tiff'', ''image/tiff''),
      (''tif'', ''image/tiff''),
      (''avif'', ''image/avif''),
      (''ico'', ''image/x-icon'')]"

definition getMimeType :: "string \<Rightarrow> js_value" where
  \<comment> \<open>lines 30 to 50: the table first, then the property read \<open>mimeMap[...]\<close> with its
      fallback \<open>|| "image/png"\<close>\<close>
  "getMimeType format =
     (case find (\<lambda>f. value f = toLowerCase format) IMAGE_FORMATS of
        Some formatInfo \<Rightarrow> Str (mime formatInfo)
      | None \<Rightarrow>
          (let v = get_property mimeMap (toLowerCase format)
           in if truthy v then v else Str ''image/png''))"

section \<open>Tracked entries\<close>

type_synonym byte = "8 word"

record File =
  name :: string
  type :: string
  content :: "byte list"

datatype status = Pending | Converting | Completed | Error

record ProcessedFile =
  "file" :: File
  id' :: string
  status :: status
  preview :: string
  outputUrl :: "string option"
  outputFormat :: "string option"

definition isImage :: "ProcessedFile \<Rightarrow> bool" where
  \<comment> \<open>\<open>file.type.startsWith("image/")\<close>\<close>
  "isImage f = startsWith (type (file f)) ''image/''"

text \<open>
  \<open>onDrop\<close> draws one random token and one preview URL for each accepted file; the
  function \<open>random\<close> gives the token and \<open>previewURL\<close> the URL drawn for the k-th file
  of the call.
\<close>

definition newFile :: "(nat \<Rightarrow> string) \<Rightarrow> (nat \<Rightarrow> string) \<Rightarrow> nat \<times> File \<Rightarrow> ProcessedFile" where
  \<comment> \<open>the callback of \<open>acceptedFiles.map\<close> in \<open>onDrop\<close> (lines 89 to 100), for the k-th file\<close>
  "newFile random previewURL kf =
     (let k = fst kf; fl = snd kf;
          isImg = startsWith (type fl) ''image/'';
          defaultFormat = (if isImg then ''png'' else ''mp4'')
      in \<lparr>file = fl, id' = random k, status = Pending, preview = previewURL k,
          outputUrl = None, outputFormat = Some defaultFormat\<rparr>)"

definition onDrop ::
  "(nat \<Rightarrow> string) \<Rightarrow> (nat \<Rightarrow> string) \<Rightarrow> File list \<Rightarrow> ProcessedFile list \<Rightarrow> ProcessedFile list" where
  \<comment> \<open>lines 88 to 102; the result is the list that \<open>setFiles\<close> stores\<close>
  "onDrop random previewURL acceptedFiles prev =
     (let newFiles = map (newFile random previewURL) (enumerate 0 acceptedFiles)
      in prev @ newFiles)"

definition updateOutputFormat :: "string \<Rightarrow> string \<Rightarrow> ProcessedFile list \<Rightarrow> ProcessedFile list" where
  \<comment> \<open>lines 206 to 210: the update maps over the list by id alone\<close>
  "updateOutputFormat fileId format prev =
     map (\<lambda>f. if id' f = fileId then f\<lparr>outputFormat := Some format\<rparr> else f) prev"

definition removeFile :: "string \<Rightarrow> ProcessedFile list \<Rightarrow> ProcessedFile list" where
  \<comment> \<open>the remove button's \<open>setFiles\<close> update (lines 313 to 317)\<close>
  "removeFile fileId prev = filter (\<lambda>item. id' item \<noteq> fileId) prev"

section \<open>The engine boundary\<close>

text \<open>
  The media engine is outside the program. Each field gives the answer of one awaited
  call: \<open>Inl\<close> when the promise rejects (or the call throws), \<open>Inr\<close> when it resolves.
  \<open>exec\<close> resolves with the exit code of the command, which \<open>convertFile\<close> does not
  read. \<open>newUint8Array\<close> is the typed-array constructor applied to a string, for a read
  that answers with text, and \<open>createObjectURL\<close> the URL made for a blob of the given
  bytes and type.
\<close>

datatype js_error = JsError string

definition EmptyOutput :: js_error where
  "EmptyOutput = JsError ''FFmpeg produced an empty file.''"

datatype FileData = Uint8Array "byte list" | Text string

record engine =
  fetchFile :: "File \<Rightarrow> js_error + byte list"
  writeFile :: "string \<Rightarrow> byte list \<Rightarrow> js_error + bool"
  exec :: "string list \<Rightarrow> js_error + int"
  readFile :: "string \<Rightarrow> js_error + FileData"
  deleteFile :: "string \<Rightarrow> js_error + bool"
  newUint8Array :: "string \<Rightarrow> js_error + byte list"
  createObjectURL :: "byte list \<Rightarrow> js_value \<Rightarrow> string"

datatype engine_call =
    FetchFile File
  | WriteFile string "byte list"
  | Exec "string list"
  | ReadFile string
  | DeleteFile string

text \<open>
  A block of awaited calls yields the calls it made, in order, and either the error that
  ended it or its value. \<open>await\<close> is one call; \<open>and_then\<close> runs the rest of the block only
  when the first part did not fail.
\<close>

type_synonym 'a awaited = "engine_call list \<times> (js_error + 'a)"

definition await :: "engine_call \<Rightarrow> js_error + 'a \<Rightarrow> 'a awaited" where
  "await c answer = ([c], answer)"

definition and_then :: "'a awaited \<Rightarrow> ('a \<Rightarrow> 'b awaited) \<Rightarrow> 'b awaited" where
  "and_then m k =
     (case snd m of
        Inl e \<Rightarrow> (fst m, Inl e)
      | Inr x \<Rightarrow> (fst m @ fst (k x), snd (k x)))"

definition set_from :: "byte list \<Rightarrow> byte list \<Rightarrow> byte list" where
  \<comment> \<open>\<open>dst.set(src)\<close> for a source that fits: the source's bytes, then the rest of \<open>dst\<close>\<close>
  "set_from dst src = src @ drop (length src) dst"

section \<open>convertFile\<close>

definition safeExt :: "ProcessedFile \<Rightarrow> string" where
  \<comment> \<open>lines 127 to 129; \<open>pop\<close> yields the last piece, and \<open>split\<close> always has one\<close>
  "safeExt fileObj =
     (if includes_elem (name (file fileObj)) CHR ''.''
      then last (split (name (file fileObj)) CHR ''.'')
      else ''bin'')"

definition inputName :: "ProcessedFile \<Rightarrow> string" where
  "inputName fileObj = ''input_'' @ id' fileObj @ ''.'' @ safeExt fileObj"

definition requestedFormat :: "ProcessedFile \<Rightarrow> string" where
  \<comment> \<open>\<open>fileObj.outputFormat || "png"\<close>: the empty string is falsy too\<close>
  "requestedFormat fileObj =
     (case outputFormat fileObj of
        None \<Rightarrow> ''png''
      | Some fmt \<Rightarrow> if fmt = [] then ''png'' else fmt)"

definition outputName :: "ProcessedFile \<Rightarrow> string" where
  "outputName fileObj = ''output_'' @ id' fileObj @ ''.'' @ requestedFormat fileObj"

definition commandArgs :: "ProcessedFile \<Rightarrow> string list" where
  \<comment> \<open>the argument array handed to \<open>exec\<close>, in either branch (lines 146 to 167)\<close>
  "commandArgs fileObj =
     (if isImage fileObj
      then [''-i'', inputName fileObj]
           @ (if includes_elem [''jpg'', ''jpeg'', ''webp''] (requestedFormat fileObj)
              then [''-q:v'', ''2''] else [])
           @ [outputName fileObj]
      else [''-i'', inputName fileObj, ''-c:v'', ''libx264'', ''-preset'', ''ultrafast'',
            ''-crf'', ''23'', ''-c:a'', ''aac'', outputName fileObj])"

definition markConverting :: "string \<Rightarrow> ProcessedFile list \<Rightarrow> ProcessedFile list" where
  \<comment> \<open>the first \<open>setFiles\<close> update of \<open>convertFile\<close> (lines 136 to 140)\<close>
  "markConverting fileId prev =
     map (\<lambda>f. if id' f = fileId then f\<lparr>status := Converting\<rparr> else f) prev"

definition markCompleted :: "string \<Rightarrow> string \<Rightarrow> ProcessedFile list \<Rightarrow> ProcessedFile list" where
  \<comment> \<open>the update that ends the \<open>try\<close> block (lines 186 to 192)\<close>
  "markCompleted fileId url prev =
     map (\<lambda>f. if id' f = fileId then f\<lparr>status := Completed, outputUrl := Some url\<rparr> else f) prev"

definition markError :: "string \<Rightarrow> ProcessedFile list \<Rightarrow> ProcessedFile list" where
  \<comment> \<open>the update of the \<open>catch\<close> block (lines 195 to 197): the output URL is not touched\<close>
  "markError fileId prev =
     map (\<lambda>f. if id' f = fileId then f\<lparr>status := Error\<rparr> else f) prev"

definition toBlobData :: "engine \<Rightarrow> FileData \<Rightarrow> js_error + byte list" where
  \<comment> \<open>\<open>data instanceof Uint8Array ? data : new Uint8Array(data)\<close> (lines 171 to 176)\<close>
  "toBlobData ffmpeg data =
     (case data of Uint8Array b \<Rightarrow> Inr b | Text t \<Rightarrow> newUint8Array ffmpeg t)"

definition convertTry :: "engine \<Rightarrow> ProcessedFile \<Rightarrow> string awaited" where
  \<comment> \<open>the \<open>try\<close> block up to the URL (lines 143 to 184); its value is the URL of the
      output blob\<close>
  "convertTry ffmpeg fileObj =
     and_then (await (FetchFile (file fileObj)) (fetchFile ffmpeg (file fileObj))) (\<lambda>fileData.
     and_then (await (WriteFile (inputName fileObj) fileData)
                 (writeFile ffmpeg (inputName fileObj) fileData)) (\<lambda>_.
     and_then (await (Exec (commandArgs fileObj)) (exec ffmpeg (commandArgs fileObj))) (\<lambda>_.
     and_then (await (ReadFile (outputName fileObj)) (readFile ffmpeg (outputName fileObj))) (\<lambda>data.
     let mimeType = getMimeType (requestedFormat fileObj) in
     and_then ([], toBlobData ffmpeg data) (\<lambda>blobData.
     if length blobData = 0 then ([], Inl EmptyOutput)
     else
       (let cleanBuffer = set_from (replicate (length blobData) 0) blobData;
            url = createObjectURL ffmpeg cleanBuffer mimeType
        in ([], Inr url)))))))"

definition convertFinally :: "engine \<Rightarrow> ProcessedFile \<Rightarrow> engine_call list" where
  \<comment> \<open>the \<open>finally\<close> block (lines 198 to 203): both deletions sit in one \<open>try\<close>, whose
      \<open>catch\<close> is empty, so the second is reached only when the first resolves\<close>
  "convertFinally ffmpeg fileObj =
     fst (and_then (await (DeleteFile (inputName fileObj)) (deleteFile ffmpeg (inputName fileObj))) (\<lambda>_.
          await (DeleteFile (outputName fileObj)) (deleteFile ffmpeg (outputName fileObj))))"

definition settle :: "ProcessedFile \<Rightarrow> js_error + string \<Rightarrow> ProcessedFile list \<Rightarrow> ProcessedFile list" where
  \<comment> \<open>the \<open>setFiles\<close> update that ends the \<open>try\<close> block or the \<open>catch\<close> block\<close>
  "settle fileObj res prev =
     (case res of
        Inr url \<Rightarrow> markCompleted (id' fileObj) url prev
      | Inl err \<Rightarrow> markError (id' fileObj) prev)"

definition console_error :: "js_error + string \<Rightarrow> js_error list" where
  \<comment> \<open>what the \<open>catch\<close> block logs (line 194)\<close>
  "console_error res = (case res of Inr url \<Rightarrow> [] | Inl err \<Rightarrow> [err])"

text \<open>
  One whole call of \<open>convertFile\<close> with nothing else running between its awaits: the
  tracked list after it, the engine calls it made, and what it logged.
\<close>

definition convertFile ::
  "engine \<Rightarrow> ProcessedFile \<Rightarrow> ProcessedFile list
     \<Rightarrow> ProcessedFile list \<times> engine_call list \<times> js_error list" where
  "convertFile ffmpeg fileObj prev =
     (let files1 = markConverting (id' fileObj) prev;
          tried = convertTry ffmpeg fileObj;
          files2 = settle fileObj (snd tried) files1;
          cleanup = convertFinally ffmpeg fileObj
      in (files2, fst tried @ cleanup, console_error (snd tried)))"

section \<open>The application as a machine of UI events\<close>

text \<open>
  Between the awaits of a running \<open>convertFile\<close> the user can act. The state is the
  tracked list and the entries captured by the calls of \<open>convertFile\<close> that have made
  their first update and not yet their last. An event is possible only when the rendered
  row offers it: the convert button on a pending row (lines 283 to 290), the format
  selector on a pending image row (lines 325 to 335), the remove button on every row
  (lines 312 to 321). \<open>Settle k ffmpeg\<close> is the end of the \<open>try\<close> or \<open>catch\<close> block of the
  k-th running conversion, the engine having answered as \<open>ffmpeg\<close> does.
\<close>

record app_state =
  files :: "ProcessedFile list"
  inflight :: "ProcessedFile list"

definition init :: app_state where
  "init = \<lparr>files = [], inflight = []\<rparr>"

datatype event =
    Drop "nat \<Rightarrow> string" "nat \<Rightarrow> string" "File list"
  | ClickConvert nat
  | Settle nat engine
  | ChangeFormat nat string
  | ClickRemove nat

fun step :: "app_state \<Rightarrow> event \<Rightarrow> app_state option" where
  "step s (Drop random previewURL acceptedFiles) =
     Some (s\<lparr>files := onDrop random previewURL acceptedFiles (files s)\<rparr>)"
| "step s (ClickConvert i) =
     (if i < length (files s) \<and> status (files s ! i) = Pending
      then Some (s\<lparr>files := markConverting (id' (files s ! i)) (files s),
                   inflight := inflight s @ [files s ! i]\<rparr>)
      else None)"
| "step s (Settle k ffmpeg) =
     (if k < length (inflight s)
      then Some (s\<lparr>files := settle (inflight s ! k) (snd (convertTry ffmpeg (inflight s ! k))) (files s),
                   inflight := take k (inflight s) @ drop (Suc k) (inflight s)\<rparr>)
      else None)"
| "step s (ChangeFormat i format) =
     (if i < length (files s) \<and> isImage (files s ! i) \<and> status (files s ! i) = Pending
      then Some (s\<lparr>files := updateOutputFormat (id' (files s ! i)) format (files s)\<rparr>)
      else None)"
| "step s (ClickRemove i) =
     (if i < length (files s)
      then Some (s\<lparr>files := removeFile (id' (files s ! i)) (files s)\<rparr>)
      else None)"

fun run :: "app_state \<Rightarrow> event list \<Rightarrow> app_state option" where
  "run s [] = Some s"
| "run s (e # es) = (case step s e of None \<Rightarrow> None | Some s' \<Rightarrow> run s' es)"

text \<open>
  The tokens of a drop are fresh when they differ from each other, from the ids of the
  tracked entries and from the ids of the running conversions.
\<close>

fun fresh :: "app_state \<Rightarrow> event \<Rightarrow> bool" where
  "fresh s (Drop random previewURL acceptedFiles) =
     (let ids = map random [0..<length acceptedFiles]
      in distinct ids \<and>
         list_all (\<lambda>x. x \<notin> set (map id' (files s)) \<and> x \<notin> set (map id' (inflight s))) ids)"
| "fresh s e = True"

fun fresh_run :: "app_state \<Rightarrow> event list \<Rightarrow> app_state option" where
  "fresh_run s [] = Some s"
| "fresh_run s (e # es) =
     (if fresh s e
      then (case step s e of None \<Rightarrow> None | Some s' \<Rightarrow> fresh_run s' es)
      else None)"

section \<open>Status sequences\<close>

fun transition :: "status \<Rightarrow> status \<Rightarrow> bool" where
  \<comment> \<open>the three edges \<open>pending \<rightarrow> converting \<rightarrow> {completed, error}\<close>\<close>
  "transition Pending b = (b = Converting)"
| "transition Converting b = (b = Completed \<or> b = Error)"
| "transition Completed b = False"
| "transition Error b = False"

fun monotonic :: "status list \<Rightarrow> bool" where
  \<comment> \<open>each status of the sequence is the one before it or one edge further\<close>
  "monotonic [] = True"
| "monotonic [a] = True"
| "monotonic (a # b # rest) = ((a = b \<or> transition a b) \<and> monotonic (b # rest))"

fun reaches :: "status \<Rightarrow> status \<Rightarrow> bool" where
  \<comment> \<open>\<open>b\<close> is \<open>a\<close> or lies after it along the edges\<close>
  "reaches Pending b = True"
| "reaches Converting b = (b \<noteq> Pending)"
| "reaches Completed b = (b = Completed)"
| "reaches Error b = (b = Error)"

text \<open>
  The statuses that the entry with id \<open>x\<close> takes along a run of events, one per state:
  \<open>None\<close> when an event is not possible or no entry with the id is tracked in one of the
  states. When several entries have the id, the first one is followed.
\<close>

fun status_trace :: "string \<Rightarrow> app_state \<Rightarrow> event list \<Rightarrow> status list option" where
  "status_trace x s [] =
     (case find (\<lambda>f. id' f = x) (files s) of
        None \<Rightarrow> None
      | Some f \<Rightarrow> Some [status f])"
| "status_trace x s (e # es) =
     (case find (\<lambda>f. id' f = x) (files s) of
        None \<Rightarrow> None
      | Some f \<Rightarrow>
          (case step s e of
             None \<Rightarrow> None
           | Some s' \<Rightarrow> map_option (Cons (status f)) (status_trace x s' es)))"

fun unique_run :: "app_state \<Rightarrow> event list \<Rightarrow> bool" where
  \<comment> \<open>the run is possible and the tracked ids are distinct in every state of it\<close>
  "unique_run s [] = distinct (map id' (files s))"
| "unique_run s (e # es) =
     (distinct (map id' (files s)) \<and>
      (case step s e of None \<Rightarrow> False | Some s' \<Rightarrow> unique_run s' es))"

definition ids_inv :: "app_state \<Rightarrow> bool" where
  \<comment> \<open>ids are unique, and an entry whose conversion is running has status \<open>converting\<close>\<close>
  "ids_inv s =
     (distinct (map id' (files s)) \<and> distinct (map id' (inflight s)) \<and>
      (\<forall>g \<in> set (inflight s). \<forall>f \<in> set (files s). id' f = id' g \<longrightarrow> status f = Converting))"


section \<open>Sample inputs\<close>

definition sample_image :: File where
  "sample_image = \<lparr>name = ''photo.heic'', type = ''image/heic'', content = [1, 2, 3]\<rparr>"

definition sample_video :: File where
  "sample_video = \<lparr>name = ''clip.mov'', type = ''video/quicktime'', content = [4, 5]\<rparr>"

definition sample_random :: "nat \<Rightarrow> string" where
  "sample_random k = (if k = 0 then ''a1'' else if k = 1 then ''b2'' else ''c3'')"

definition sample_previewURL :: "nat \<Rightarrow> string" where
  "sample_previewURL k = (if k = 0 then ''blob:p0'' else ''blob:p1'')"

definition sample_files :: "ProcessedFile list" where
  "sample_files = onDrop sample_random sample_previewURL [sample_image, sample_video] []"

definition sample_image_entry :: ProcessedFile where
  "sample_image_entry =
     \<lparr>file = sample_image, id' = ''a1'', status = Pending, preview = ''blob:p0'',
      outputUrl = None, outputFormat = Some ''png''\<rparr>"

definition sample_video_entry :: ProcessedFile where
  "sample_video_entry =
     \<lparr>file = sample_video, id' = ''b2'', status = Pending, preview = ''blob:p1'',
      outputUrl = None, outputFormat = Some ''mp4''\<rparr>"

definition sample_engine :: engine where
  \<comment> \<open>an engine whose every call succeeds and whose read answers two bytes\<close>
  "sample_engine =
     \<lparr>fetchFile = (\<lambda>f. Inr (content f)),
      writeFile = (\<lambda>n b. Inr True),
      exec = (\<lambda>args. Inr 0),
      readFile = (\<lambda>n. Inr (Uint8Array [7, 8])),
      deleteFile = (\<lambda>n. Inr True),
      newUint8Array = (\<lambda>t. Inr []),
      createObjectURL = (\<lambda>b m. ''blob:out'')\<rparr>"

definition sample_state :: app_state where
  "sample_state = \<lparr>files = sample_files, inflight = []\<rparr>"

definition sample_images_state :: app_state where
  "sample_images_state =
     \<lparr>files = [sample_image_entry\<lparr>status := Converting\<rparr>,
               sample_video_entry\<lparr>file := sample_image, outputFormat := Some ''png''\<rparr>],
      inflight = [sample_image_entry]\<rparr>"

definition failing_engine :: engine where
  \<comment> \<open>an engine whose \<open>exec\<close> rejects\<close>
  "failing_engine = sample_engine\<lparr>exec := (\<lambda>args. Inl (JsError ''aborted''))\<rparr>"

definition reuse_prefix :: "event list" where
  \<comment> \<open>an entry is removed while its conversion runs, and the next drop draws its token\<close>
  "reuse_prefix =
     [Drop (\<lambda>k. ''a1'') sample_previewURL [sample_image],
      ClickConvert 0,
      ClickRemove 0,
      Drop (\<lambda>k. ''a1'') sample_previewURL [sample_image]]"

definition reuse_state :: app_state where
  "reuse_state = \<lparr>files = [sample_image_entry], inflight = [sample_image_entry]\<rparr>"

definition reuse_suffix :: "event list" where
  \<comment> \<open>the new entry is converted; the old conversion settles first, then the new one fails\<close>
  "reuse_suffix = [ClickConvert 0, Settle 0 sample_engine, Settle 0 failing_engine]"

definition colliding_prefix :: "event list" where
  \<comment> \<open>one entry, converted with success\<close>
  "colliding_prefix =
     [Drop (\<lambda>k. ''a1'') sample_previewURL [sample_image],
      ClickConvert 0,
      Settle 0 sample_engine]"

definition colliding_state :: app_state where
  "colliding_state =
     \<lparr>files = [sample_image_entry\<lparr>status := Completed, outputUrl := Some ''blob:out''\<rparr>],
      inflight = []\<rparr>"

definition colliding_suffix :: "event list" where
  \<comment> \<open>a second drop draws the token of the tracked entry, and the new row is converted\<close>
  "colliding_suffix = [Drop (\<lambda>k. ''a1'') sample_previewURL [sample_image], ClickConvert 1]"

section \<open>Properties of the MIME resolution\<close>

lemma toLowerCase_char_idem: "toLowerCase_char (toLowerCase_char c) = toLowerCase_char c"
  by (simp add: toLowerCase_char_def Let_def)

lemma toLowerCase_idem: "toLowerCase (toLowerCase s) = toLowerCase s"
  by (simp add: toLowerCase_def toLowerCase_char_idem)

lemma getMimeType_toLowerCase: "getMimeType (toLowerCase s) = getMimeType s"
  unfolding getMimeType_def toLowerCase_idem ..

lemma toLowerCase_char_not_upper:
  "\<not> (65 \<le> (of_char (toLowerCase_char c) :: nat) \<and> (of_char (toLowerCase_char c) :: nat) \<le> 90)"
  by (auto simp add: toLowerCase_char_def Let_def)

lemma toLowerCase_no_upper:
  assumes "c \<in> set key" "65 \<le> (of_char c :: nat)" "(of_char c :: nat) \<le> 90"
  shows "toLowerCase s \<noteq> key"
proof
  assume "toLowerCase s = key"
  with assms(1) obtain d where "c = toLowerCase_char d"
    by (auto simp: toLowerCase_def)
  with assms(2,3) toLowerCase_char_not_upper [of d] show False by simp
qed

lemma inherited_lookup:
  assumes "toLowerCase s \<noteq> ''constructor''" "toLowerCase s \<noteq> ''__proto__''"
  shows "map_of Object_prototype (toLowerCase s) = None"
proof -
  have "toLowerCase s \<noteq> ''__defineGetter__''" by (rule toLowerCase_no_upper [where c = "CHR ''G''"]) simp_all
  moreover have "toLowerCase s \<noteq> ''__defineSetter__''" by (rule toLowerCase_no_upper [where c = "CHR ''S''"]) simp_all
  moreover have "toLowerCase s \<noteq> ''hasOwnProperty''" by (rule toLowerCase_no_upper [where c = "CHR ''O''"]) simp_all
  moreover have "toLowerCase s \<noteq> ''__lookupGetter__''" by (rule toLowerCase_no_upper [where c = "CHR ''G''"]) simp_all
  moreover have "toLowerCase s \<noteq> ''__lookupSetter__''" by (rule toLowerCase_no_upper [where c = "CHR ''S''"]) simp_all
  moreover have "toLowerCase s \<noteq> ''isPrototypeOf''" by (rule toLowerCase_no_upper [where c = "CHR ''P''"]) simp_all
  moreover have "toLowerCase s \<noteq> ''propertyIsEnumerable''" by (rule toLowerCase_no_upper [where c = "CHR ''I''"]) simp_all
  moreover have "toLowerCase s \<noteq> ''toString''" by (rule toLowerCase_no_upper [where c = "CHR ''S''"]) simp_all
  moreover have "toLowerCase s \<noteq> ''valueOf''" by (rule toLowerCase_no_upper [where c = "CHR ''O''"]) simp_all
  moreover have "toLowerCase s \<noteq> ''toLocaleString''" by (rule toLowerCase_no_upper [where c = "CHR ''L''"]) simp_all
  ultimately show ?thesis
    using assms by (simp add: Object_prototype_def)
qed

lemma find_IMAGE_FORMATS_None:
  "k \<notin> set (map value IMAGE_FORMATS) \<Longrightarrow> find (\<lambda>f. value f = k) IMAGE_FORMATS = None"
  by (simp add: find_None_iff image_iff) metis

lemma mimeMap_keys: "map fst mimeMap = map value IMAGE_FORMATS"
  by (simp add: mimeMap_def IMAGE_FORMATS_def)

lemma getMimeType_unknown:
  assumes "toLowerCase s \<notin> set (map value IMAGE_FORMATS)"
    and "toLowerCase s \<noteq> ''constructor''" "toLowerCase s \<noteq> ''__proto__''"
  shows "getMimeType s = Str ''image/png''"
proof -
  have "map_of mimeMap (toLowerCase s) = None"
    using assms(1) by (simp add: map_of_eq_None_iff mimeMap_keys [symmetric])
  then show ?thesis
    using assms by (simp add: getMimeType_def find_IMAGE_FORMATS_None get_property_def inherited_lookup)
qed

lemma getMimeType_known:
  "toLowerCase s \<in> set (map value IMAGE_FORMATS) \<Longrightarrow>
     \<exists>fi \<in> set IMAGE_FORMATS. value fi = toLowerCase s \<and> getMimeType s = Str (mime fi)"
  apply (simp add: getMimeType_def split: option.splits)
  by (auto simp: find_None_iff find_Some_iff)

section \<open>Properties of the list updates\<close>

lemma sample_files_eq: "sample_files = [sample_image_entry, sample_video_entry]"
  by (simp add: sample_files_def onDrop_def newFile_def enumerate_eq_zip sample_random_def
      sample_previewURL_def sample_image_def sample_video_def startsWith_def upt_rec
      sample_image_entry_def sample_video_entry_def)

lemma sample_entry_fields [simp]:
  "id' sample_image_entry = ''a1''" "id' sample_video_entry = ''b2''"
  "status sample_image_entry = Pending" "status sample_video_entry = Pending"
  "outputUrl sample_image_entry = None" "outputUrl sample_video_entry = None"
  "outputFormat sample_image_entry = Some ''png''" "outputFormat sample_video_entry = Some ''mp4''"
  "file sample_image_entry = sample_image" "file sample_video_entry = sample_video"
  by (simp_all add: sample_image_entry_def sample_video_entry_def)

lemma length_updates [simp]:
  "length (markConverting fileId prev) = length prev"
  "length (markCompleted fileId url prev) = length prev"
  "length (markError fileId prev) = length prev"
  "length (updateOutputFormat fileId format prev) = length prev"
  "length (settle fileObj res prev) = length prev"
  by (simp_all add: markConverting_def markCompleted_def markError_def updateOutputFormat_def
      settle_def split: sum.splits)

lemma nth_markConverting:
  "i < length prev \<Longrightarrow>
     markConverting fileId prev ! i =
       (if id' (prev ! i) = fileId then (prev ! i)\<lparr>status := Converting\<rparr> else prev ! i)"
  by (simp add: markConverting_def)

lemma nth_markCompleted:
  "i < length prev \<Longrightarrow>
     markCompleted fileId url prev ! i =
       (if id' (prev ! i) = fileId then (prev ! i)\<lparr>status := Completed, outputUrl := Some url\<rparr>
        else prev ! i)"
  by (simp add: markCompleted_def)

lemma nth_markError:
  "i < length prev \<Longrightarrow>
     markError fileId prev ! i =
       (if id' (prev ! i) = fileId then (prev ! i)\<lparr>status := Error\<rparr> else prev ! i)"
  by (simp add: markError_def)

lemma nth_updateOutputFormat:
  "i < length prev \<Longrightarrow>
     updateOutputFormat fileId format prev ! i =
       (if id' (prev ! i) = fileId then (prev ! i)\<lparr>outputFormat := Some format\<rparr> else prev ! i)"
  by (simp add: updateOutputFormat_def)

lemma ids_updates [simp]:
  "map id' (markConverting fileId prev) = map id' prev"
  "map id' (markCompleted fileId url prev) = map id' prev"
  "map id' (markError fileId prev) = map id' prev"
  "map id' (updateOutputFormat fileId format prev) = map id' prev"
  "map id' (settle fileObj res prev) = map id' prev"
  by (simp_all add: markConverting_def markCompleted_def markError_def updateOutputFormat_def
      settle_def split: sum.splits)

lemma updates_absent:
  assumes "fileId \<notin> set (map id' prev)"
  shows "markConverting fileId prev = prev"
    and "markCompleted fileId url prev = prev"
    and "markError fileId prev = prev"
    and "updateOutputFormat fileId format prev = prev"
  using assms
  by (auto simp: markConverting_def markCompleted_def markError_def updateOutputFormat_def
      intro!: map_idI)

lemma settle_absent: "id' fileObj \<notin> set (map id' prev) \<Longrightarrow> settle fileObj res prev = prev"
  by (simp add: settle_def updates_absent split: sum.splits)

lemma distinct_ids_eq:
  assumes "distinct (map id' xs)" "i < length xs" "j < length xs" "id' (xs ! i) = id' (xs ! j)"
  shows "i = j"
  using assms by (metis distinct_conv_nth length_map nth_map)

lemma distinct_ids_same:
  assumes "distinct (map id' xs)" "f \<in> set xs" "g \<in> set xs" "id' f = id' g"
  shows "f = g"
  using assms by (metis distinct_ids_eq in_set_conv_nth)

lemma nth_newFiles:
  "k < length acceptedFiles \<Longrightarrow>
     map (newFile random previewURL) (enumerate 0 acceptedFiles) ! k =
       newFile random previewURL (k, acceptedFiles ! k)"
  by (simp add: nth_enumerate_eq)

section \<open>Properties of one conversion\<close>

subsection \<open>The try block, answer by answer\<close>

lemma set_from_fresh [simp]: "set_from (replicate (length b) 0) b = b"
  by (simp add: set_from_def)

lemma convertTry_fetch_fails:
  "fetchFile ffmpeg (file fileObj) = Inl e \<Longrightarrow>
     convertTry ffmpeg fileObj = ([FetchFile (file fileObj)], Inl e)"
  by (simp add: convertTry_def and_then_def await_def)

lemma convertTry_write_fails:
  "fetchFile ffmpeg (file fileObj) = Inr d \<Longrightarrow>
   writeFile ffmpeg (inputName fileObj) d = Inl e \<Longrightarrow>
     convertTry ffmpeg fileObj =
       ([FetchFile (file fileObj), WriteFile (inputName fileObj) d], Inl e)"
  by (simp add: convertTry_def and_then_def await_def)

lemma convertTry_exec_fails:
  "fetchFile ffmpeg (file fileObj) = Inr d \<Longrightarrow>
   writeFile ffmpeg (inputName fileObj) d = Inr w \<Longrightarrow>
   exec ffmpeg (commandArgs fileObj) = Inl e \<Longrightarrow>
     convertTry ffmpeg fileObj =
       ([FetchFile (file fileObj), WriteFile (inputName fileObj) d, Exec (commandArgs fileObj)],
        Inl e)"
  by (simp add: convertTry_def and_then_def await_def)

lemma convertTry_read_fails:
  "fetchFile ffmpeg (file fileObj) = Inr d \<Longrightarrow>
   writeFile ffmpeg (inputName fileObj) d = Inr w \<Longrightarrow>
   exec ffmpeg (commandArgs fileObj) = Inr c \<Longrightarrow>
   readFile ffmpeg (outputName fileObj) = Inl e \<Longrightarrow>
     convertTry ffmpeg fileObj =
       ([FetchFile (file fileObj), WriteFile (inputName fileObj) d, Exec (commandArgs fileObj),
         ReadFile (outputName fileObj)], Inl e)"
  by (simp add: convertTry_def and_then_def await_def)

lemma convertTry_read:
  "fetchFile ffmpeg (file fileObj) = Inr d \<Longrightarrow>
   writeFile ffmpeg (inputName fileObj) d = Inr w \<Longrightarrow>
   exec ffmpeg (commandArgs fileObj) = Inr c \<Longrightarrow>
   readFile ffmpeg (outputName fileObj) = Inr data \<Longrightarrow>
     convertTry ffmpeg fileObj =
       ([FetchFile (file fileObj), WriteFile (inputName fileObj) d, Exec (commandArgs fileObj),
         ReadFile (outputName fileObj)],
        (case toBlobData ffmpeg data of
           Inl e \<Rightarrow> Inl e
         | Inr b \<Rightarrow> if b = [] then Inl EmptyOutput
                    else Inr (createObjectURL ffmpeg b (getMimeType (requestedFormat fileObj)))))"
  by (simp add: convertTry_def and_then_def await_def toBlobData_def Let_def
      split: sum.splits)

lemma convertTry_Exec:
  assumes a: "Exec args \<in> set (fst (convertTry ffmpeg fileObj))"
  shows "args = commandArgs fileObj"
proof (cases "fetchFile ffmpeg (file fileObj)")
  case (Inl e)
  then show ?thesis using a convertTry_fetch_fails [OF Inl] by simp
next
  case d: (Inr d)
  show ?thesis
  proof (cases "writeFile ffmpeg (inputName fileObj) d")
    case (Inl e)
    then show ?thesis using a convertTry_write_fails [OF d Inl] by simp
  next
    case w: (Inr w)
    show ?thesis
    proof (cases "exec ffmpeg (commandArgs fileObj)")
      case (Inl e)
      then show ?thesis using a convertTry_exec_fails [OF d w Inl] by simp
    next
      case c: (Inr c)
      show ?thesis
      proof (cases "readFile ffmpeg (outputName fileObj)")
        case (Inl e)
        then show ?thesis using a convertTry_read_fails [OF d w c Inl] by simp
      next
        case (Inr data)
        then show ?thesis using a convertTry_read [OF d w c Inr] by simp
      qed
    qed
  qed
qed

lemma convertFinally_calls:
  "convertFinally ffmpeg fileObj =
     (case deleteFile ffmpeg (inputName fileObj) of
        Inl e \<Rightarrow> [DeleteFile (inputName fileObj)]
      | Inr ok \<Rightarrow> [DeleteFile (inputName fileObj), DeleteFile (outputName fileObj)])"
  by (simp add: convertFinally_def and_then_def await_def split: sum.splits)

lemma convertFile_parts:
  "fst (convertFile ffmpeg fileObj prev) =
     settle fileObj (snd (convertTry ffmpeg fileObj)) (markConverting (id' fileObj) prev)"
  "fst (snd (convertFile ffmpeg fileObj prev)) =
     fst (convertTry ffmpeg fileObj) @ convertFinally ffmpeg fileObj"
  "snd (snd (convertFile ffmpeg fileObj prev)) = console_error (snd (convertTry ffmpeg fileObj))"
  by (simp_all add: convertFile_def Let_def)

lemma nth_settle_markConverting:
  assumes "i < length prev"
  shows "settle fileObj res (markConverting (id' fileObj) prev) ! i =
     (if id' (prev ! i) = id' fileObj
      then (case res of
              Inr url \<Rightarrow> (prev ! i)\<lparr>status := Completed, outputUrl := Some url\<rparr>
            | Inl err \<Rightarrow> (prev ! i)\<lparr>status := Error\<rparr>)
      else prev ! i)"
  using assms
  by (simp add: settle_def nth_markCompleted nth_markError nth_markConverting split: sum.splits)

subsection \<open>The sample entries\<close>

lemma sample_names:
  "inputName sample_video_entry = ''input_b2.mov''"
  "outputName sample_video_entry = ''output_b2.mp4''"
  "isImage sample_video_entry = False"
  "inputName sample_image_entry = ''input_a1.heic''"
  "outputName sample_image_entry = ''output_a1.png''"
  "isImage sample_image_entry = True"
  by (simp_all add: inputName_def outputName_def safeExt_def requestedFormat_def
      includes_elem_def sample_video_def sample_image_def isImage_def startsWith_def)

lemma sample_video_args:
  "commandArgs sample_video_entry =
     [''-i'', ''input_b2.mov'', ''-c:v'', ''libx264'', ''-preset'', ''ultrafast'',
      ''-crf'', ''23'', ''-c:a'', ''aac'', ''output_b2.mp4'']"
  by (simp add: commandArgs_def sample_names)

lemma convertFile_frame:
  "i < length prev \<Longrightarrow> id' (prev ! i) \<noteq> id' fileObj \<Longrightarrow>
     fst (convertFile ffmpeg fileObj prev) ! i = prev ! i"
  by (simp add: convertFile_parts nth_settle_markConverting)

lemma removeFile_ids: "fileId \<notin> set (map id' (removeFile fileId prev))"
  by (auto simp: removeFile_def)

subsection \<open>The cleanup\<close>

lemma cleanup_input_always:
  "DeleteFile (inputName fileObj) \<in> set (fst (snd (convertFile ffmpeg fileObj prev)))"
  by (simp add: convertFile_parts convertFinally_calls split: sum.splits)

lemma cleanup_both_when_first_succeeds:
  "deleteFile ffmpeg (inputName fileObj) = Inr ok \<Longrightarrow>
     convertFinally ffmpeg fileObj = [DeleteFile (inputName fileObj), DeleteFile (outputName fileObj)]"
  by (simp add: convertFinally_calls)

lemma toBlobData_deleteFile [simp]:
  "toBlobData (ffmpeg\<lparr>deleteFile := del\<rparr>) data = toBlobData ffmpeg data"
  by (simp add: toBlobData_def split: FileData.splits)

lemma convertTry_deleteFile [simp]:
  "convertTry (ffmpeg\<lparr>deleteFile := del\<rparr>) fileObj = convertTry ffmpeg fileObj"
  by (simp add: convertTry_def Let_def cong: if_cong)

lemma cleanup_never_changes_status:
  "fst (convertFile (ffmpeg\<lparr>deleteFile := del\<rparr>) fileObj prev) = fst (convertFile ffmpeg fileObj prev) \<and>
   snd (snd (convertFile (ffmpeg\<lparr>deleteFile := del\<rparr>) fileObj prev)) =
     snd (snd (convertFile ffmpeg fileObj prev))"
  by (simp add: convertFile_parts)

section \<open>Invariants of the machine\<close>

subsection \<open>Membership in the updated lists\<close>

lemma mem_markConverting:
  "f' \<in> set (markConverting fileId prev) \<Longrightarrow>
     \<exists>g \<in> set prev. id' g = id' f' \<and>
        (id' g = fileId \<and> f' = g\<lparr>status := Converting\<rparr> \<or> id' g \<noteq> fileId \<and> f' = g)"
  by (auto simp: markConverting_def)

lemma mem_markCompleted:
  "f' \<in> set (markCompleted fileId url prev) \<Longrightarrow>
     \<exists>g \<in> set prev. id' g = id' f' \<and>
        (id' g = fileId \<and> f' = g\<lparr>status := Completed, outputUrl := Some url\<rparr> \<or>
         id' g \<noteq> fileId \<and> f' = g)"
  by (auto simp: markCompleted_def)

lemma mem_markError:
  "f' \<in> set (markError fileId prev) \<Longrightarrow>
     \<exists>g \<in> set prev. id' g = id' f' \<and>
        (id' g = fileId \<and> f' = g\<lparr>status := Error\<rparr> \<or> id' g \<noteq> fileId \<and> f' = g)"
  by (auto simp: markError_def)

lemma mem_updateOutputFormat:
  "f' \<in> set (updateOutputFormat fileId format prev) \<Longrightarrow>
     \<exists>g \<in> set prev. id' g = id' f' \<and>
        (id' g = fileId \<and> f' = g\<lparr>outputFormat := Some format\<rparr> \<or> id' g \<noteq> fileId \<and> f' = g)"
  by (auto simp: updateOutputFormat_def)

lemma mem_settle:
  assumes "f' \<in> set (settle fileObj res prev)"
  shows "\<exists>g \<in> set prev. id' g = id' f' \<and> outputFormat f' = outputFormat g \<and>
        (id' g = id' fileObj \<and> (status f' = Completed \<or> status f' = Error \<and> outputUrl f' = outputUrl g)
         \<or> id' g \<noteq> id' fileObj \<and> f' = g)"
proof (cases res)
  case (Inl err)
  with assms have "f' \<in> set (markError (id' fileObj) prev)" by (simp add: settle_def)
  from mem_markError [OF this] obtain g where g: "g \<in> set prev" "id' g = id' f'"
    "id' g = id' fileObj \<and> f' = g\<lparr>status := Error\<rparr> \<or> id' g \<noteq> id' fileObj \<and> f' = g" by blast
  from g(3) have "outputFormat f' = outputFormat g \<and>
        (id' g = id' fileObj \<and> (status f' = Completed \<or> status f' = Error \<and> outputUrl f' = outputUrl g)
         \<or> id' g \<noteq> id' fileObj \<and> f' = g)"
    by (elim disjE conjE) simp_all
  with g(1,2) show ?thesis by blast
next
  case (Inr url)
  with assms have "f' \<in> set (markCompleted (id' fileObj) url prev)" by (simp add: settle_def)
  from mem_markCompleted [OF this] obtain g where g: "g \<in> set prev" "id' g = id' f'"
    "id' g = id' fileObj \<and> f' = g\<lparr>status := Completed, outputUrl := Some url\<rparr> \<or>
     id' g \<noteq> id' fileObj \<and> f' = g"
    by blast
  from g(3) have "outputFormat f' = outputFormat g \<and>
        (id' g = id' fileObj \<and> (status f' = Completed \<or> status f' = Error \<and> outputUrl f' = outputUrl g)
         \<or> id' g \<noteq> id' fileObj \<and> f' = g)"
    by (elim disjE conjE) simp_all
  with g(1,2) show ?thesis by blast
qed

lemma ids_newFiles:
  "map id' (map (newFile random previewURL) (enumerate 0 acceptedFiles)) =
     map random [0..<length acceptedFiles]"
  by (rule nth_equalityI) (simp_all add: nth_enumerate_eq newFile_def Let_def)

lemma mem_newFiles:
  assumes "f' \<in> set (map (newFile random previewURL) (enumerate 0 acceptedFiles))"
  shows "id' f' \<in> set (map random [0..<length acceptedFiles]) \<and> status f' = Pending \<and>
         outputUrl f' = None"
proof -
  from assms obtain k where k: "k < length acceptedFiles"
    and f': "f' = map (newFile random previewURL) (enumerate 0 acceptedFiles) ! k"
    by (auto simp: in_set_conv_nth)
  from k f' have "f' = newFile random previewURL (k, acceptedFiles ! k)"
    by (simp add: nth_enumerate_eq)
  with k show ?thesis by (simp add: newFile_def Let_def)
qed

lemma mem_onDrop:
  "f' \<in> set (onDrop random previewURL acceptedFiles prev) \<Longrightarrow>
     f' \<in> set prev \<or>
     (id' f' \<in> set (map random [0..<length acceptedFiles]) \<and> status f' = Pending \<and>
      outputUrl f' = None)"
  using mem_newFiles [of f' random previewURL acceptedFiles]
  by (auto simp: onDrop_def)

subsection \<open>A pending entry has no output URL\<close>

lemma step_files:
  "step s (Drop random previewURL acceptedFiles) = Some s' \<Longrightarrow>
     files s' = onDrop random previewURL acceptedFiles (files s) \<and> inflight s' = inflight s"
  "step s (ClickConvert i) = Some s' \<Longrightarrow>
     i < length (files s) \<and> status (files s ! i) = Pending \<and>
     files s' = markConverting (id' (files s ! i)) (files s) \<and>
     inflight s' = inflight s @ [files s ! i]"
  "step s (Settle k ffmpeg) = Some s' \<Longrightarrow>
     k < length (inflight s) \<and>
     files s' = settle (inflight s ! k) (snd (convertTry ffmpeg (inflight s ! k))) (files s) \<and>
     inflight s' = take k (inflight s) @ drop (Suc k) (inflight s)"
  "step s (ChangeFormat i format) = Some s' \<Longrightarrow>
     i < length (files s) \<and> isImage (files s ! i) \<and> status (files s ! i) = Pending \<and>
     files s' = updateOutputFormat (id' (files s ! i)) format (files s) \<and> inflight s' = inflight s"
  "step s (ClickRemove i) = Some s' \<Longrightarrow>
     i < length (files s) \<and> files s' = removeFile (id' (files s ! i)) (files s) \<and>
     inflight s' = inflight s"
  by (auto split: if_splits)




subsection \<open>Unique ids along runs with fresh tokens\<close>

lemma fresh_Drop:
  assumes "fresh s (Drop random previewURL acceptedFiles)"
  shows "distinct (map random [0..<length acceptedFiles])"
    and "\<And>x. x \<in> set (map random [0..<length acceptedFiles]) \<Longrightarrow>
           x \<notin> set (map id' (files s)) \<and> x \<notin> set (map id' (inflight s))"
  using assms by (auto simp: Let_def list_all_iff)

lemma remove_nth_ids:
  assumes d: "distinct (map id' xs)" and k: "k < length xs"
  shows "distinct (map id' (take k xs @ drop (Suc k) xs))"
    and "\<And>g. g \<in> set (take k xs @ drop (Suc k) xs) \<Longrightarrow> g \<in> set xs \<and> id' g \<noteq> id' (xs ! k)"
proof -
  have xs: "xs = take k xs @ xs ! k # drop (Suc k) xs"
    using k by (rule id_take_nth_drop)
  from d have d': "distinct (map id' (take k xs @ xs ! k # drop (Suc k) xs))"
    using xs by simp
  then show "distinct (map id' (take k xs @ drop (Suc k) xs))" by simp
  fix g assume g: "g \<in> set (take k xs @ drop (Suc k) xs)"
  then have "g \<in> set xs" by (auto dest: in_set_takeD in_set_dropD)
  moreover from d' have "id' (xs ! k) \<notin> id' ` set (take k xs @ drop (Suc k) xs)" by auto
  with g have "id' g \<noteq> id' (xs ! k)" by (metis image_eqI)
  ultimately show "g \<in> set xs \<and> id' g \<noteq> id' (xs ! k)" by simp
qed

lemma ids_inv_step:
  assumes inv: "ids_inv s" and fr: "fresh s ev" and st: "step s ev = Some s'"
  shows "ids_inv s'"
proof -
  from inv have df: "distinct (map id' (files s))" and di: "distinct (map id' (inflight s))"
    and cv: "\<And>g f. g \<in> set (inflight s) \<Longrightarrow> f \<in> set (files s) \<Longrightarrow> id' f = id' g \<Longrightarrow>
                status f = Converting"
    by (simp_all add: ids_inv_def)
  show ?thesis
  proof (cases ev)
    case (Drop random previewURL acceptedFiles)
    note fs = st [unfolded Drop, THEN step_files(1)]
    note fd = fresh_Drop [OF fr [unfolded Drop]]
    have "map id' (files s') = map id' (files s) @ map random [0..<length acceptedFiles]"
      using fs by (simp only: onDrop_def Let_def map_append ids_newFiles)
    then have "distinct (map id' (files s'))"
      using df fd by auto
    moreover have "status f = Converting"
      if "g \<in> set (inflight s')" "f \<in> set (files s')" "id' f = id' g" for g f
    proof -
      from that(2) fs have "f \<in> set (onDrop random previewURL acceptedFiles (files s))" by simp
      from that(1) fs have g: "g \<in> set (inflight s)" by simp
      from mem_onDrop [OF \<open>f \<in> set (onDrop random previewURL acceptedFiles (files s))\<close>]
      show ?thesis
      proof
        assume "f \<in> set (files s)"
        with g show ?thesis using that(3) by (rule cv)
      next
        assume "id' f \<in> set (map random [0..<length acceptedFiles]) \<and> status f = Pending \<and>
            outputUrl f = None"
        then have "id' f \<notin> set (map id' (inflight s))" using fd(2) by blast
        with g that(3) show ?thesis by (metis image_eqI set_map)
      qed
    qed
    ultimately show ?thesis using fs di by (simp add: ids_inv_def)
  next
    case (ClickConvert i)
    note fs = st [unfolded ClickConvert, THEN step_files(2)]
    let ?t = "files s ! i"
    from fs have t: "?t \<in> set (files s)" "status ?t = Pending" by simp_all
    have notin: "id' ?t \<notin> set (map id' (inflight s))"
    proof
      assume "id' ?t \<in> set (map id' (inflight s))"
      then obtain g where "g \<in> set (inflight s)" "id' ?t = id' g" by auto
      with cv [of g ?t] t show False by simp
    qed
    have "distinct (map id' (inflight s'))" using fs di notin by simp
    moreover have "distinct (map id' (files s'))" using fs df by simp
    moreover have "status f = Converting"
      if "g \<in> set (inflight s')" "f \<in> set (files s')" "id' f = id' g" for g f
    proof -
      from that(2) fs have "f \<in> set (markConverting (id' ?t) (files s))" by simp
      from mem_markConverting [OF this] obtain h where h: "h \<in> set (files s)" "id' h = id' f"
        "id' h = id' ?t \<and> f = h\<lparr>status := Converting\<rparr> \<or> id' h \<noteq> id' ?t \<and> f = h" by blast
      from h(3) show ?thesis
      proof
        assume "id' h = id' ?t \<and> f = h\<lparr>status := Converting\<rparr>"
        then show ?thesis by simp
      next
        assume a: "id' h \<noteq> id' ?t \<and> f = h"
        then have fh: "f = h" and ne: "id' h \<noteq> id' ?t" by simp_all
        from that(1) fs have "g \<in> set (inflight s) \<or> g = ?t" by auto
        moreover from that(3) fh have hg: "id' h = id' g" by simp
        ultimately have "g \<in> set (inflight s)" using ne by blast
        from cv [OF this h(1) hg] fh show ?thesis by simp
      qed
    qed
    ultimately show ?thesis by (simp add: ids_inv_def)
  next
    case (Settle k ffmpeg)
    note fs = st [unfolded Settle, THEN step_files(3)]
    from fs have k: "k < length (inflight s)" by simp
    note rm = remove_nth_ids [OF di k]
    have "distinct (map id' (inflight s'))" using fs rm(1) by simp
    moreover have "distinct (map id' (files s'))" using fs df by simp
    moreover have "status f = Converting"
      if "g \<in> set (inflight s')" "f \<in> set (files s')" "id' f = id' g" for g f
    proof -
      from that(1) fs rm(2) [of g] have g: "g \<in> set (inflight s)" "id' g \<noteq> id' (inflight s ! k)"
        by simp_all
      from that(2) fs
      have "f \<in> set (settle (inflight s ! k) (snd (convertTry ffmpeg (inflight s ! k))) (files s))"
        by simp
      from mem_settle [OF this] obtain h where h: "h \<in> set (files s)" "id' h = id' f"
        "id' h = id' (inflight s ! k) \<and>
           (status f = Completed \<or> status f = Error \<and> outputUrl f = outputUrl h) \<or>
         id' h \<noteq> id' (inflight s ! k) \<and> f = h" by blast
      from h(2) that(3) have hg: "id' h = id' g" by simp
      with g(2) h(3) have fh: "f = h" by metis
      from cv [OF g(1) h(1) hg] fh show ?thesis by simp
    qed
    ultimately show ?thesis by (simp add: ids_inv_def)
  next
    case (ChangeFormat i format)
    note fs = st [unfolded ChangeFormat, THEN step_files(4)]
    have "distinct (map id' (files s'))" using fs df by simp
    moreover have "status f = Converting"
      if "g \<in> set (inflight s')" "f \<in> set (files s')" "id' f = id' g" for g f
    proof -
      from that(2) fs have "f \<in> set (updateOutputFormat (id' (files s ! i)) format (files s))"
        by simp
      from mem_updateOutputFormat [OF this] obtain h where h: "h \<in> set (files s)" "id' h = id' f"
        and hf: "id' h = id' (files s ! i) \<and> f = h\<lparr>outputFormat := Some format\<rparr> \<or>
          id' h \<noteq> id' (files s ! i) \<and> f = h" by blast
      from hf have "status f = status h" by (elim disjE conjE) simp_all
      note h = h this
      from h(2) that(3) have hg: "id' h = id' g" by simp
      from that(1) fs have "g \<in> set (inflight s)" by simp
      from cv [OF this h(1) hg] h(3) show ?thesis by simp
    qed
    ultimately show ?thesis using fs di by (simp add: ids_inv_def)
  next
    case (ClickRemove i)
    note fs = st [unfolded ClickRemove, THEN step_files(5)]
    have "distinct (map id' (files s'))" using fs df by (simp add: removeFile_def distinct_map_filter)
    moreover have "status f = Converting"
      if "g \<in> set (inflight s')" "f \<in> set (files s')" "id' f = id' g" for g f
    proof -
      from that(1) fs have "g \<in> set (inflight s)" by simp
      moreover from that(2) fs have "f \<in> set (files s)" by (simp add: removeFile_def)
      ultimately show ?thesis using that(3) by (rule cv)
    qed
    ultimately show ?thesis using fs di by (simp add: ids_inv_def)
  qed
qed

lemma ids_inv_run: "ids_inv s \<Longrightarrow> fresh_run s evs = Some s' \<Longrightarrow> ids_inv s'"
proof (induction evs arbitrary: s)
  case Nil
  then show ?case by simp
next
  case (Cons e es)
  from Cons.prems(2) obtain s1 where s1: "fresh s e" "step s e = Some s1" "fresh_run s1 es = Some s'"
    by (auto split: option.splits if_splits)
  from ids_inv_step [OF Cons.prems(1) s1(1,2)] s1(3) show ?case by (rule Cons.IH)
qed

lemma ids_inv_init: "ids_inv init"
  by (simp add: ids_inv_def init_def)

subsection \<open>One event, one entry, and sequences of statuses\<close>

lemma step_entry:
  assumes inv: "ids_inv s" and fr: "fresh s ev" and st: "step s ev = Some s'"
    and f: "f \<in> set (files s)" and f': "f' \<in> set (files s')" and same: "id' f' = id' f"
  shows "(status f' = status f \<or> transition (status f) (status f')) \<and>
         (status f \<noteq> Pending \<longrightarrow> outputFormat f' = outputFormat f)"
proof -
  from inv have df: "distinct (map id' (files s))"
    and cv: "\<And>g f. g \<in> set (inflight s) \<Longrightarrow> f \<in> set (files s) \<Longrightarrow> id' f = id' g \<Longrightarrow>
                status f = Converting"
    by (simp_all add: ids_inv_def)
  have uniq: "h = f" if "h \<in> set (files s)" "id' h = id' f'" for h
    using distinct_ids_same [OF df that(1) f] that(2) same by simp
  show ?thesis
  proof (cases ev)
    case (Drop random previewURL acceptedFiles)
    note fs = st [unfolded Drop, THEN step_files(1)]
    note fd = fresh_Drop [OF fr [unfolded Drop]]
    from f' fs have "f' \<in> set (onDrop random previewURL acceptedFiles (files s))" by simp
    from mem_onDrop [OF this] have "f' \<in> set (files s)"
    proof
      assume "f' \<in> set (files s)" then show ?thesis .
    next
      assume "id' f' \<in> set (map random [0..<length acceptedFiles]) \<and> status f' = Pending \<and>
            outputUrl f' = None"
      then have "id' f' \<notin> set (map id' (files s))" using fd(2) by blast
      with f same show ?thesis by (metis image_eqI set_map)
    qed
    then have "f' = f" using uniq by simp
    then show ?thesis by simp
  next
    case (ClickConvert i)
    note fs = st [unfolded ClickConvert, THEN step_files(2)]
    let ?t = "files s ! i"
    from fs have t: "?t \<in> set (files s)" "status ?t = Pending" by simp_all
    from f' fs have "f' \<in> set (markConverting (id' ?t) (files s))" by simp
    from mem_markConverting [OF this] obtain h where h: "h \<in> set (files s)" "id' h = id' f'"
      and hf: "id' h = id' ?t \<and> f' = h\<lparr>status := Converting\<rparr> \<or> id' h \<noteq> id' ?t \<and> f' = h"
      by blast
    from uniq [OF h] have hf': "h = f" .
    from hf show ?thesis
    proof
      assume a: "id' h = id' ?t \<and> f' = h\<lparr>status := Converting\<rparr>"
      with hf' have "id' ?t = id' f" by simp
      with distinct_ids_same [OF df t(1) f] have "?t = f" by simp
      with t(2) a hf' show ?thesis by simp
    next
      assume "id' h \<noteq> id' ?t \<and> f' = h"
      with hf' show ?thesis by simp
    qed
  next
    case (Settle k ffmpeg)
    note fs = st [unfolded Settle, THEN step_files(3)]
    let ?g = "inflight s ! k"
    from fs have g: "?g \<in> set (inflight s)" by simp
    from f' fs have "f' \<in> set (settle ?g (snd (convertTry ffmpeg ?g)) (files s))" by simp
    from mem_settle [OF this] obtain h where h: "h \<in> set (files s)" "id' h = id' f'"
      and fmt: "outputFormat f' = outputFormat h"
      and hf: "id' h = id' ?g \<and> (status f' = Completed \<or> status f' = Error \<and> outputUrl f' = outputUrl h)
               \<or> id' h \<noteq> id' ?g \<and> f' = h"
      by blast
    from uniq [OF h] have hf': "h = f" .
    from hf show ?thesis
    proof
      assume a: "id' h = id' ?g \<and> (status f' = Completed \<or> status f' = Error \<and> outputUrl f' = outputUrl h)"
      with hf' have "id' f = id' ?g" by simp
      from cv [OF g f this] have "status f = Converting" .
      with a fmt hf' show ?thesis by auto
    next
      assume "id' h \<noteq> id' ?g \<and> f' = h"
      with hf' show ?thesis by simp
    qed
  next
    case (ChangeFormat i format)
    note fs = st [unfolded ChangeFormat, THEN step_files(4)]
    let ?t = "files s ! i"
    from fs have t: "?t \<in> set (files s)" "status ?t = Pending" by simp_all
    from f' fs have "f' \<in> set (updateOutputFormat (id' ?t) format (files s))" by simp
    from mem_updateOutputFormat [OF this] obtain h where h: "h \<in> set (files s)" "id' h = id' f'"
      and hf: "id' h = id' ?t \<and> f' = h\<lparr>outputFormat := Some format\<rparr> \<or> id' h \<noteq> id' ?t \<and> f' = h"
      by blast
    from uniq [OF h] have hf': "h = f" .
    from hf show ?thesis
    proof
      assume a: "id' h = id' ?t \<and> f' = h\<lparr>outputFormat := Some format\<rparr>"
      with hf' have "id' ?t = id' f" by simp
      with distinct_ids_same [OF df t(1) f] have "?t = f" by simp
      with t(2) a hf' show ?thesis by simp
    next
      assume "id' h \<noteq> id' ?t \<and> f' = h"
      with hf' show ?thesis by simp
    qed
  next
    case (ClickRemove i)
    note fs = st [unfolded ClickRemove, THEN step_files(5)]
    from f' fs have "f' \<in> set (files s)" by (simp add: removeFile_def)
    then have "f' = f" using uniq by simp
    then show ?thesis by simp
  qed
qed

lemma transition_reaches: "a = b \<or> transition a b \<Longrightarrow> reaches a b"
  by (cases a; cases b) simp_all

lemma reaches_trans: "reaches a b \<Longrightarrow> reaches b c \<Longrightarrow> reaches a c"
  by (cases a; cases b; cases c) simp_all

lemma reaches_refl: "reaches a a"
  by (cases a) simp_all

lemma monotonic_reaches:
  "monotonic sts \<Longrightarrow> i \<le> j \<Longrightarrow> j < length sts \<Longrightarrow> reaches (sts ! i) (sts ! j)"
proof (induction sts arbitrary: i j rule: monotonic.induct)
  case 1
  then show ?case by simp
next
  case (2 a)
  then show ?case by (simp add: reaches_refl)
next
  case (3 a b rest)
  from "3.prems"(1) have ab: "a = b \<or> transition a b" and m: "monotonic (b # rest)" by simp_all
  show ?case
  proof (cases i)
    case 0
    show ?thesis
    proof (cases j)
      case 0
      with \<open>i = 0\<close> show ?thesis by (simp add: reaches_refl)
    next
      case (Suc j')
      with "3.prems"(3) have "reaches ((b # rest) ! 0) ((b # rest) ! j')"
        by (intro "3.IH" [OF m]) simp_all
      with transition_reaches [OF ab] have "reaches a ((b # rest) ! j')"
        by (auto intro: reaches_trans)
      with \<open>i = 0\<close> Suc show ?thesis by simp
    qed
  next
    case (Suc i')
    with "3.prems"(2) obtain j' where j': "j = Suc j'" "i' \<le> j'" by (cases j) simp_all
    with "3.prems"(3) have "reaches ((b # rest) ! i') ((b # rest) ! j')"
      by (intro "3.IH" [OF m]) simp_all
    with Suc j' show ?thesis by simp
  qed
qed

lemma find_SomeD: "find P xs = Some x \<Longrightarrow> x \<in> set xs \<and> P x"
  by (induction xs) (auto split: if_splits)

lemma status_trace_head:
  assumes "status_trace x s evs = Some sts"
  shows "\<exists>f rest. f \<in> set (files s) \<and> id' f = x \<and> sts = status f # rest"
proof (cases evs)
  case Nil
  with assms obtain f where "find (\<lambda>f. id' f = x) (files s) = Some f" "sts = [status f]"
    by (auto split: option.splits)
  then show ?thesis by (blast dest: find_SomeD)
next
  case (Cons e es)
  with assms obtain f rest where "find (\<lambda>f. id' f = x) (files s) = Some f" "sts = status f # rest"
    by (auto split: option.splits)
  then show ?thesis by (blast dest: find_SomeD)
qed

lemma status_trace_monotonic:
  "ids_inv s \<Longrightarrow> fresh_run s evs = Some s' \<Longrightarrow> status_trace x s evs = Some sts \<Longrightarrow>
     monotonic sts"
proof (induction evs arbitrary: s sts)
  case Nil
  then show ?case by (auto split: option.splits)
next
  case (Cons e es)
  from Cons.prems(2) obtain s1 where fr: "fresh s e" and st: "step s e = Some s1"
    and run1: "fresh_run s1 es = Some s'"
    by (auto split: option.splits if_splits)
  from Cons.prems(3) st obtain f rest where f: "find (\<lambda>f. id' f = x) (files s) = Some f"
    and rest: "status_trace x s1 es = Some rest" and sts: "sts = status f # rest"
    by (auto split: option.splits)
  from find_SomeD [OF f] have fx: "f \<in> set (files s)" "id' f = x" by simp_all
  from ids_inv_step [OF Cons.prems(1) fr st] have inv1: "ids_inv s1" .
  from Cons.IH [OF inv1 run1 rest] have m: "monotonic rest" .
  from status_trace_head [OF rest] obtain f1 rest1 where f1: "f1 \<in> set (files s1)" "id' f1 = x"
    "rest = status f1 # rest1" by blast
  from step_entry [OF Cons.prems(1) fr st fx(1) f1(1)] fx(2) f1(2)
  have "status f1 = status f \<or> transition (status f) (status f1)" by simp
  with m f1(3) sts show ?case by auto
qed

subsection \<open>The sample runs\<close>

lemma sample_drop_step:
  "step init (Drop sample_random sample_previewURL [sample_image, sample_video]) = Some sample_state"
  by (simp add: init_def sample_state_def sample_files_def)

lemma sample_drop_fresh:
  "fresh init (Drop sample_random sample_previewURL [sample_image, sample_video])"
  by (simp add: init_def sample_random_def upt_rec)

lemma sample_run:
  "run init [Drop sample_random sample_previewURL [sample_image, sample_video]] = Some sample_state"
  "fresh_run init [Drop sample_random sample_previewURL [sample_image, sample_video]] = Some sample_state"
  by (simp_all only: run.simps fresh_run.simps sample_drop_step sample_drop_fresh option.case
      if_True)

lemma sample_state_files [simp]:
  "files sample_state = [sample_image_entry, sample_video_entry]"
  "inflight sample_state = []"
  by (simp_all add: sample_state_def sample_files_eq)

lemma sample_engine_answers:
  "fetchFile sample_engine f = Inr (content f)"
  "writeFile sample_engine n b = Inr True"
  "exec sample_engine args = Inr 0"
  "readFile sample_engine n = Inr (Uint8Array [7, 8])"
  "deleteFile sample_engine n = Inr True"
  "createObjectURL sample_engine b m = ''blob:out''"
  by (simp_all add: sample_engine_def)

lemma sample_convertTry:
  "snd (convertTry sample_engine fileObj) = Inr ''blob:out''"
  using convertTry_read [of sample_engine fileObj, OF sample_engine_answers(1-4)]
  by (simp add: toBlobData_def sample_engine_answers)

lemma sample_status_trace:
  "status_trace ''a1'' sample_state [ClickConvert 0, Settle 0 sample_engine] =
     Some [Pending, Converting, Completed]"
  by (simp add: markConverting_def settle_def markCompleted_def sample_convertTry)

lemma sample_convert_run:
  "fresh_run sample_state [ClickConvert 0, Settle 0 sample_engine] =
     Some \<lparr>files = [sample_image_entry\<lparr>status := Completed, outputUrl := Some ''blob:out''\<rparr>,
                    sample_video_entry],
           inflight = []\<rparr>"
  by (simp add: sample_state_def sample_files_eq markConverting_def settle_def markCompleted_def
      sample_convertTry)

lemma failing_convertTry:
  "snd (convertTry failing_engine fileObj) = Inl (JsError ''aborted'')"
proof -
  have "fetchFile failing_engine (file fileObj) = Inr (content (file fileObj))"
    and "writeFile failing_engine (inputName fileObj) (content (file fileObj)) = Inr True"
    and "exec failing_engine (commandArgs fileObj) = Inl (JsError ''aborted'')"
    by (simp_all add: failing_engine_def sample_engine_def)
  from convertTry_exec_fails [OF this] show ?thesis by simp
qed

lemma sample_drop_a1:
  "onDrop (\<lambda>k. ''a1'') sample_previewURL [sample_image] prev = prev @ [sample_image_entry]"
  by (simp add: onDrop_def newFile_def enumerate_eq_zip sample_previewURL_def startsWith_def
      sample_image_def sample_image_entry_def upt_rec)

lemma sample_images_run:
  "fresh_run init [Drop sample_random sample_previewURL [sample_image, sample_image], ClickConvert 0]
     = Some sample_images_state"
  by (simp add: init_def sample_random_def upt_rec onDrop_def newFile_def enumerate_eq_zip
      sample_previewURL_def startsWith_def sample_image_def markConverting_def
      sample_images_state_def sample_image_entry_def sample_video_entry_def)

lemma sample_images_step:
  "step sample_images_state (ChangeFormat 1 ''jpg'') =
     Some (sample_images_state\<lparr>files := [sample_image_entry\<lparr>status := Converting\<rparr>,
               sample_video_entry\<lparr>file := sample_image, outputFormat := Some ''jpg''\<rparr>]\<rparr>)"
  by (simp add: sample_images_state_def isImage_def startsWith_def sample_image_def
      updateOutputFormat_def)

text \<open>With unique ids, removing the id of a row removes that row and nothing else.\<close>

lemma removeFile_nth:
  assumes d: "distinct (map id' prev)" and i: "i < length prev"
  shows "removeFile (id' (prev ! i)) prev = take i prev @ drop (Suc i) prev"
proof -
  note rm = remove_nth_ids(2) [OF d i]
  have keep: "filter (\<lambda>item. id' item \<noteq> id' (prev ! i)) (take i prev @ drop (Suc i) prev)
      = take i prev @ drop (Suc i) prev"
    using rm by (intro filter_True) blast
  have "removeFile (id' (prev ! i)) prev
      = filter (\<lambda>item. id' item \<noteq> id' (prev ! i)) (take i prev @ prev ! i # drop (Suc i) prev)"
    unfolding removeFile_def using id_take_nth_drop [OF i] by simp
  also have "\<dots> = filter (\<lambda>item. id' item \<noteq> id' (prev ! i)) (take i prev @ drop (Suc i) prev)"
    by simp
  finally show ?thesis using keep by simp
qed

subsection \<open>One conversion as two events\<close>

text \<open>
  A click on the convert button followed at once by the settling of that conversion
  changes the list as one uninterrupted call of \<open>convertFile\<close> does.
\<close>

lemma convertFile_as_events:
  assumes "step s (ClickConvert i) = Some s1"
    and "step s1 (Settle (length (inflight s)) ffmpeg) = Some s2"
  shows "files s2 = fst (convertFile ffmpeg (files s ! i) (files s))"
proof -
  note a = step_files(2) [OF assms(1)]
  from a have k: "inflight s1 ! length (inflight s) = files s ! i" by simp
  note b = step_files(3) [OF assms(2)]
  from b k a show ?thesis by (simp add: convertFile_parts)
qed

section \<open>The claims\<close>



text \<open>
  C2 (as amended). \<open>updateOutputFormat\<close> has no status check of its own: it leaves the
  list unchanged when no entry has the id, and otherwise sets the requested format of
  every entry with that id, whatever its status, and changes nothing else. The
  restriction to \<open>pending\<close> is a gate of the UI: the format selector, its only caller,
  exists only on a row that is image-typed and \<open>pending\<close>. So along every run of UI
  events with fresh tokens, an entry that has left \<open>pending\<close> keeps its requested format
  through every event.
\<close>

theorem setOutputFormat_gate:
  "(fileId \<notin> set (map id' prev) \<longrightarrow> updateOutputFormat fileId format prev = prev) \<and>
   (\<forall>i < length prev.
      updateOutputFormat fileId format prev ! i =
        (if id' (prev ! i) = fileId then (prev ! i)\<lparr>outputFormat := Some format\<rparr> else prev ! i)) \<and>
   (\<forall>s i s'. step s (ChangeFormat i format) = Some s' \<longrightarrow>
      i < length (files s) \<and> isImage (files s ! i) \<and> status (files s ! i) = Pending \<and>
      files s' = updateOutputFormat (id' (files s ! i)) format (files s)) \<and>
   (\<forall>evs s ev s' f f'.
      fresh_run init evs = Some s \<and> fresh s ev \<and> step s ev = Some s' \<and>
      f \<in> set (files s) \<and> f' \<in> set (files s') \<and> id' f' = id' f \<and> status f \<noteq> Pending \<longrightarrow>
      outputFormat f' = outputFormat f)"
proof (intro conjI allI impI)
  assume "fileId \<notin> set (map id' prev)"
  then show "updateOutputFormat fileId format prev = prev" by (rule updates_absent)
next
  fix i assume "i < length prev"
  then show "updateOutputFormat fileId format prev ! i =
      (if id' (prev ! i) = fileId then (prev ! i)\<lparr>outputFormat := Some format\<rparr> else prev ! i)"
    by (rule nth_updateOutputFormat)
next
  fix s i s' assume st: "step s (ChangeFormat i format) = Some s'"
  note fs = step_files(4) [OF st]
  from fs show "i < length (files s)" "isImage (files s ! i)" "status (files s ! i) = Pending"
    "files s' = updateOutputFormat (id' (files s ! i)) format (files s)" by simp_all
next
  fix evs s ev s' f f'
  assume a: "fresh_run init evs = Some s \<and> fresh s ev \<and> step s ev = Some s' \<and>
      f \<in> set (files s) \<and> f' \<in> set (files s') \<and> id' f' = id' f \<and> status f \<noteq> Pending"
  then have r: "fresh_run init evs = Some s" and fr: "fresh s ev" and st: "step s ev = Some s'"
    and f: "f \<in> set (files s)" and f': "f' \<in> set (files s')" and same: "id' f' = id' f"
    and np: "status f \<noteq> Pending" by simp_all
  from ids_inv_run [OF ids_inv_init r] have "ids_inv s" .
  from step_entry [OF this fr st f f' same] np show "outputFormat f' = outputFormat f" by simp
qed

theorem setOutputFormat_gate_witness:
  "''zz'' \<notin> set (map id' sample_files) \<and> updateOutputFormat ''zz'' ''jpg'' sample_files = sample_files \<and>
   fresh_run init [Drop sample_random sample_previewURL [sample_image, sample_image], ClickConvert 0]
     = Some sample_images_state \<and>
   fresh sample_images_state (ChangeFormat 1 ''jpg'') \<and>
   step sample_images_state (ChangeFormat 1 ''jpg'') =
     Some (sample_images_state\<lparr>files := [sample_image_entry\<lparr>status := Converting\<rparr>,
               sample_video_entry\<lparr>file := sample_image, outputFormat := Some ''jpg''\<rparr>]\<rparr>) \<and>
   isImage (files sample_images_state ! 1) \<and> status (files sample_images_state ! 1) = Pending \<and>
   status (files sample_images_state ! 0) = Converting \<and>
   outputFormat (sample_image_entry\<lparr>status := Converting\<rparr>) = Some ''png''"
proof -
  let ?s' = "sample_images_state\<lparr>files := [sample_image_entry\<lparr>status := Converting\<rparr>,
               sample_video_entry\<lparr>file := sample_image, outputFormat := Some ''jpg''\<rparr>]\<rparr>"
  let ?f = "sample_image_entry\<lparr>status := Converting\<rparr>"
  note g = setOutputFormat_gate [of "''zz''" sample_files "''jpg''"]
  have z: "''zz'' \<notin> set (map id' sample_files)" by (simp add: sample_files_eq)
  note g1 = g [THEN conjunct1, rule_format, OF z]
  note st = sample_images_step
  note g3 = g [THEN conjunct2, THEN conjunct2, THEN conjunct1, rule_format, OF st]
  have fr: "fresh sample_images_state (ChangeFormat 1 ''jpg'')" by simp
  have mem: "?f \<in> set (files sample_images_state)" "?f \<in> set (files ?s')" "id' ?f = id' ?f"
    "status ?f \<noteq> Pending"
    by (simp_all add: sample_images_state_def)
  note g4 = g [THEN conjunct2, THEN conjunct2, THEN conjunct2, rule_format,
      OF conjI [OF sample_images_run conjI [OF fr conjI [OF st conjI [OF mem(1)
        conjI [OF mem(2) conjI [OF mem(3) mem(4)]]]]]]]
  have "status (files sample_images_state ! 0) = Converting"
    by (simp add: sample_images_state_def)
  moreover have "outputFormat ?f = Some ''png''" using g4 by simp
  ultimately show ?thesis
    using z g1 sample_images_run fr st g3 by simp
qed

text \<open>
  C2 as first stated, refuted: the entry's status is \<open>converting\<close>, and
  \<open>updateOutputFormat\<close> for its id returns a list that differs from the one it was given.
\<close>

theorem updateOutputFormat_after_pending:
  "status (sample_image_entry\<lparr>status := Converting\<rparr>) = Converting \<and>
   updateOutputFormat ''a1'' ''jpg'' [sample_image_entry\<lparr>status := Converting\<rparr>]
     \<noteq> [sample_image_entry\<lparr>status := Converting\<rparr>]"
  by (simp add: updateOutputFormat_def sample_image_entry_def)

text \<open>
  C3 (the code departs from it). Both deletions sit in one \<open>try\<close> block, so when the first
  one rejects the second is never attempted. Here \<open>writeFile\<close> rejects, the input was
  therefore never written, and \<open>deleteFile\<close> rejects for a name that does not exist: the
  calls made are the file read, the write and the deletion of the input name, and no
  deletion of the output name. The rest of the claim holds: the input deletion is always
  attempted (\<open>cleanup_input_always\<close>), both are when the first succeeds
  (\<open>cleanup_both_when_first_succeeds\<close>), and no answer of \<open>deleteFile\<close> changes the list
  or the log (\<open>cleanup_never_changes_status\<close>).
\<close>

theorem cleanup_skips_output:
  "fst (snd (convertFile
       (sample_engine\<lparr>writeFile := (\<lambda>n b. Inl (JsError ''write failed'')),
                      deleteFile := (\<lambda>n. Inl (JsError ''ENOENT''))\<rparr>)
       sample_video_entry sample_files))
     = [FetchFile sample_video, WriteFile ''input_b2.mov'' [4, 5], DeleteFile ''input_b2.mov''] \<and>
   outputName sample_video_entry = ''output_b2.mp4'' \<and>
   DeleteFile ''output_b2.mp4''
     \<notin> set (fst (snd (convertFile
           (sample_engine\<lparr>writeFile := (\<lambda>n b. Inl (JsError ''write failed'')),
                          deleteFile := (\<lambda>n. Inl (JsError ''ENOENT''))\<rparr>)
           sample_video_entry sample_files)))"
proof -
  let ?w = "sample_engine\<lparr>writeFile := (\<lambda>n b. Inl (JsError ''write failed''))\<rparr>"
  let ?e = "sample_engine\<lparr>writeFile := (\<lambda>n b. Inl (JsError ''write failed'')),
                      deleteFile := (\<lambda>n. Inl (JsError ''ENOENT''))\<rparr>"
  have a: "fetchFile ?w (file sample_video_entry) = Inr [4, 5]"
    by (simp add: sample_engine_def sample_video_def)
  have b: "writeFile ?w (inputName sample_video_entry) [4, 5] = Inl (JsError ''write failed'')"
    by simp
  have "fst (snd (convertFile ?e sample_video_entry sample_files))
     = [FetchFile sample_video, WriteFile ''input_b2.mov'' [4, 5], DeleteFile ''input_b2.mov'']"
    by (simp add: convertFile_parts convertTry_write_fails [OF a b] convertFinally_calls
        sample_names)
  then show ?thesis by (simp add: sample_names)
qed

text \<open>
  C4 (as amended). Take a run of UI events in which every token drawn by a drop is fresh:
  different from the other tokens of that drop, from the ids of the tracked entries and
  from the ids of the conversions still running. Started in any state reached from the
  empty application by such a run, the statuses that a tracked entry takes along it, one
  per state, form a sequence in which each status is the one before it or one edge
  further along \<open>pending \<rightarrow> converting \<rightarrow> {completed, error}\<close>. So a later status is
  never before an earlier one, and \<open>completed\<close> and \<open>error\<close> are never left.
\<close>

theorem status_monotonic:
  assumes "fresh_run init evs = Some s" and "fresh_run s evs' = Some s'"
    and "status_trace x s evs' = Some sts"
  shows "monotonic sts \<and> (\<forall>i j. i \<le> j \<and> j < length sts \<longrightarrow> reaches (sts ! i) (sts ! j))"
proof -
  from ids_inv_run [OF ids_inv_init assms(1)] have "ids_inv s" .
  from status_trace_monotonic [OF this assms(2,3)] have m: "monotonic sts" .
  then show ?thesis using monotonic_reaches by blast
qed

theorem status_monotonic_witness:
  "fresh_run init [Drop sample_random sample_previewURL [sample_image, sample_video]]
     = Some sample_state \<and>
   fresh_run sample_state [ClickConvert 0, Settle 0 sample_engine]
     = Some \<lparr>files = [sample_image_entry\<lparr>status := Completed, outputUrl := Some ''blob:out''\<rparr>,
                      sample_video_entry],
             inflight = []\<rparr> \<and>
   status_trace ''a1'' sample_state [ClickConvert 0, Settle 0 sample_engine]
     = Some [Pending, Converting, Completed] \<and>
   monotonic [Pending, Converting, Completed] \<and>
   (0::nat) \<le> 2 \<and> 2 < length [Pending, Converting, Completed] \<and>
   reaches ([Pending, Converting, Completed] ! 0) ([Pending, Converting, Completed] ! 2)"
proof -
  note r = sample_run(2)
  note c = sample_convert_run
  note t = sample_status_trace
  have ij: "(0::nat) \<le> 2 \<and> 2 < length [Pending, Converting, Completed]" by simp
  note m = status_monotonic [OF r c t]
  note m1 = m [THEN conjunct1] and m2 = m [THEN conjunct2, rule_format, OF ij]
  show ?thesis
    using r c t m1 ij [THEN conjunct1] ij [THEN conjunct2] m2 by - (intro conjI; assumption)
qed

text \<open>
  C4 as first stated, for any run of operations, refuted twice. Nothing in the code
  keeps a drawn token from being an id already in use. In the first run the tracked ids
  are distinct in every state: an entry is removed while its conversion runs, the next
  drop draws its token, and the new entry is converted; the old conversion settles on
  it with success, then its own fails, so its statuses are \<open>pending\<close>, \<open>converting\<close>,
  \<open>completed\<close>, \<open>error\<close>. In the second run a drop draws the token of a completed entry,
  and the click on the new row sends the completed one back to \<open>converting\<close>.
\<close>

theorem status_not_monotonic:
  "run init reuse_prefix = Some reuse_state \<and>
   unique_run init (reuse_prefix @ reuse_suffix) \<and>
   status_trace ''a1'' reuse_state reuse_suffix = Some [Pending, Converting, Completed, Error] \<and>
   \<not> monotonic [Pending, Converting, Completed, Error] \<and>
   \<not> reaches Completed Error \<and>
   run init colliding_prefix = Some colliding_state \<and>
   status_trace ''a1'' colliding_state colliding_suffix = Some [Completed, Completed, Converting] \<and>
   \<not> monotonic [Completed, Completed, Converting] \<and>
   \<not> reaches Completed Converting"
proof -
  have r1: "run init reuse_prefix = Some reuse_state"
    by (simp add: reuse_prefix_def reuse_state_def init_def sample_drop_a1 markConverting_def
        removeFile_def)
  have u: "unique_run init (reuse_prefix @ reuse_suffix)"
    by (simp add: reuse_prefix_def reuse_suffix_def init_def sample_drop_a1 markConverting_def
        removeFile_def settle_def markCompleted_def markError_def sample_convertTry
        failing_convertTry)
  have t1: "status_trace ''a1'' reuse_state reuse_suffix = Some [Pending, Converting, Completed, Error]"
    by (simp add: reuse_suffix_def reuse_state_def markConverting_def settle_def markCompleted_def
        markError_def sample_convertTry failing_convertTry)
  have r2: "run init colliding_prefix = Some colliding_state"
    by (simp add: colliding_prefix_def colliding_state_def init_def sample_drop_a1
        markConverting_def settle_def markCompleted_def sample_convertTry)
  have t2: "status_trace ''a1'' colliding_state colliding_suffix = Some [Completed, Completed, Converting]"
    by (simp add: colliding_suffix_def colliding_state_def sample_drop_a1 markConverting_def)
  from r1 u t1 r2 t2 show ?thesis by simp
qed

text \<open>
  C5. \<open>onDrop\<close> keeps the tracked entries and appends exactly one entry for each accepted
  file, in order: the entry holds that file, has status \<open>pending\<close>, no output URL, and
  the output format \<open>png\<close> when the file's type starts with \<open>image/\<close> and \<open>mp4\<close>
  otherwise.
\<close>

theorem onDrop_entries:
  "length (onDrop random previewURL acceptedFiles prev) = length prev + length acceptedFiles \<and>
   take (length prev) (onDrop random previewURL acceptedFiles prev) = prev \<and>
   (\<forall>k < length acceptedFiles.
      file (onDrop random previewURL acceptedFiles prev ! (length prev + k)) = acceptedFiles ! k \<and>
      status (onDrop random previewURL acceptedFiles prev ! (length prev + k)) = Pending \<and>
      outputUrl (onDrop random previewURL acceptedFiles prev ! (length prev + k)) = None \<and>
      outputFormat (onDrop random previewURL acceptedFiles prev ! (length prev + k)) =
        Some (if startsWith (type (acceptedFiles ! k)) ''image/'' then ''png'' else ''mp4''))"
  by (simp add: onDrop_def Let_def nth_append nth_enumerate_eq newFile_def)

theorem onDrop_entries_witness:
  "1 < length [sample_image, sample_video] \<and>
   length (onDrop sample_random sample_previewURL [sample_image, sample_video] []) = 2 \<and>
   status (onDrop sample_random sample_previewURL [sample_image, sample_video] [] ! 1) = Pending \<and>
   outputFormat (onDrop sample_random sample_previewURL [sample_image, sample_video] [] ! 1) = Some ''mp4''"
proof -
  have h: "1 < length [sample_image, sample_video]" by simp
  note t = onDrop_entries [of sample_random sample_previewURL "[sample_image, sample_video]" "[]"]
  note u = t [THEN conjunct2, THEN conjunct2, rule_format, OF h]
  from t have "length (onDrop sample_random sample_previewURL [sample_image, sample_video] []) = 2"
    by simp
  with u h show ?thesis
    by (simp add: sample_video_def startsWith_def)
qed

text \<open>
  C6. For an entry that is not image-typed, the argument array given to \<open>exec\<close> is
  \<open>-i <input> -c:v libx264 -preset ultrafast -crf 23 -c:a aac <output>\<close>: every \<open>exec\<close>
  call of \<open>convertFile\<close> has these arguments, the call is made whenever reading and
  writing the file succeed, and the requested output format has no influence on the
  arguments before the output name.
\<close>

theorem video_command_fixed:
  assumes "\<not> isImage fileObj"
  shows "commandArgs fileObj =
           [''-i'', inputName fileObj, ''-c:v'', ''libx264'', ''-preset'', ''ultrafast'',
            ''-crf'', ''23'', ''-c:a'', ''aac'', outputName fileObj] \<and>
         (\<forall>args. Exec args \<in> set (fst (snd (convertFile ffmpeg fileObj prev))) \<longrightarrow>
            args = [''-i'', inputName fileObj, ''-c:v'', ''libx264'', ''-preset'', ''ultrafast'',
                    ''-crf'', ''23'', ''-c:a'', ''aac'', outputName fileObj]) \<and>
         (\<forall>d w. fetchFile ffmpeg (file fileObj) = Inr d \<and>
                 writeFile ffmpeg (inputName fileObj) d = Inr w \<longrightarrow>
            Exec [''-i'', inputName fileObj, ''-c:v'', ''libx264'', ''-preset'', ''ultrafast'',
                  ''-crf'', ''23'', ''-c:a'', ''aac'', outputName fileObj]
              \<in> set (fst (snd (convertFile ffmpeg fileObj prev)))) \<and>
         (\<forall>fmt. butlast (commandArgs (fileObj\<lparr>outputFormat := fmt\<rparr>)) =
                 butlast (commandArgs fileObj))"
proof -
  let ?fixed = "[''-i'', inputName fileObj, ''-c:v'', ''libx264'', ''-preset'', ''ultrafast'',
            ''-crf'', ''23'', ''-c:a'', ''aac'', outputName fileObj]"
  have args: "commandArgs fileObj = ?fixed"
    using assms by (simp add: commandArgs_def)
  have only: "args = ?fixed" if "Exec args \<in> set (fst (snd (convertFile ffmpeg fileObj prev)))" for args
  proof -
    from that have "Exec args \<in> set (fst (convertTry ffmpeg fileObj))"
      by (auto simp: convertFile_parts convertFinally_calls split: sum.splits)
    then show ?thesis using convertTry_Exec args by simp
  qed
  have issued: "Exec ?fixed \<in> set (fst (snd (convertFile ffmpeg fileObj prev)))"
    if d: "fetchFile ffmpeg (file fileObj) = Inr d"
      and w: "writeFile ffmpeg (inputName fileObj) d = Inr w" for d w
  proof -
    have "Exec (commandArgs fileObj) \<in> set (fst (convertTry ffmpeg fileObj))"
    proof (cases "exec ffmpeg (commandArgs fileObj)")
      case (Inl e)
      then show ?thesis using convertTry_exec_fails [OF d w Inl] by simp
    next
      case c: (Inr c)
      show ?thesis
      proof (cases "readFile ffmpeg (outputName fileObj)")
        case (Inl e)
        then show ?thesis using convertTry_read_fails [OF d w c Inl] by simp
      next
        case (Inr data)
        then show ?thesis using convertTry_read [OF d w c Inr] by simp
      qed
    qed
    then show ?thesis by (simp add: convertFile_parts args)
  qed
  have indep: "butlast (commandArgs (fileObj\<lparr>outputFormat := fmt\<rparr>)) = butlast (commandArgs fileObj)"
    for fmt
    using assms by (simp add: commandArgs_def isImage_def inputName_def safeExt_def)
  from args only issued indep show ?thesis by blast
qed

theorem video_command_fixed_witness:
  "\<not> isImage sample_video_entry \<and>
   fetchFile sample_engine (file sample_video_entry) = Inr [4, 5] \<and>
   writeFile sample_engine (inputName sample_video_entry) [4, 5] = Inr True \<and>
   Exec [''-i'', ''input_b2.mov'', ''-c:v'', ''libx264'', ''-preset'', ''ultrafast'',
         ''-crf'', ''23'', ''-c:a'', ''aac'', ''output_b2.mp4'']
     \<in> set (fst (snd (convertFile sample_engine sample_video_entry sample_files)))"
proof -
  have h: "\<not> isImage sample_video_entry" by (simp add: sample_names)
  have d: "fetchFile sample_engine (file sample_video_entry) = Inr [4, 5]"
    by (simp add: sample_engine_def sample_video_def)
  have w: "writeFile sample_engine (inputName sample_video_entry) [4, 5] = Inr True"
    by (simp add: sample_engine_def)
  note t = video_command_fixed [OF h, of sample_engine sample_files, THEN conjunct2,
      THEN conjunct2, THEN conjunct1, rule_format, OF conjI [OF d w]]
  from h d w t show ?thesis by (simp add: sample_names)
qed

text \<open>
  C7. If reading the file, \<open>writeFile\<close> and \<open>exec\<close> succeed and \<open>readFile\<close> answers a
  buffer of zero bytes, the \<open>try\<close> block fails with the error \<open>EmptyOutput\<close>, which is
  what \<open>convertFile\<close> logs, and every entry with the id of the converted one ends with
  status \<open>error\<close> and the output URL it had.
\<close>

theorem empty_output_is_error:
  assumes "fetchFile ffmpeg (file fileObj) = Inr d"
    and "writeFile ffmpeg (inputName fileObj) d = Inr w"
    and "exec ffmpeg (commandArgs fileObj) = Inr c"
    and "readFile ffmpeg (outputName fileObj) = Inr (Uint8Array [])"
  shows "snd (convertTry ffmpeg fileObj) = Inl EmptyOutput \<and>
         snd (snd (convertFile ffmpeg fileObj prev)) = [EmptyOutput] \<and>
         (\<forall>i < length prev. id' (prev ! i) = id' fileObj \<longrightarrow>
            status (fst (convertFile ffmpeg fileObj prev) ! i) = Error \<and>
            outputUrl (fst (convertFile ffmpeg fileObj prev) ! i) = outputUrl (prev ! i))"
proof -
  have r: "snd (convertTry ffmpeg fileObj) = Inl EmptyOutput"
    using convertTry_read [OF assms] by (simp add: toBlobData_def)
  then show ?thesis
    by (simp add: convertFile_parts console_error_def nth_settle_markConverting)
qed

theorem empty_output_is_error_witness:
  "fetchFile (sample_engine\<lparr>readFile := (\<lambda>n. Inr (Uint8Array []))\<rparr>) (file sample_video_entry) = Inr [4, 5] \<and>
   writeFile (sample_engine\<lparr>readFile := (\<lambda>n. Inr (Uint8Array []))\<rparr>) (inputName sample_video_entry) [4, 5] = Inr True \<and>
   exec (sample_engine\<lparr>readFile := (\<lambda>n. Inr (Uint8Array []))\<rparr>) (commandArgs sample_video_entry) = Inr 0 \<and>
   readFile (sample_engine\<lparr>readFile := (\<lambda>n. Inr (Uint8Array []))\<rparr>) (outputName sample_video_entry) = Inr (Uint8Array []) \<and>
   snd (snd (convertFile (sample_engine\<lparr>readFile := (\<lambda>n. Inr (Uint8Array []))\<rparr>) sample_video_entry sample_files))
     = [JsError ''FFmpeg produced an empty file.''] \<and>
   status (fst (convertFile (sample_engine\<lparr>readFile := (\<lambda>n. Inr (Uint8Array []))\<rparr>) sample_video_entry sample_files) ! 1) = Error"
proof -
  let ?e = "sample_engine\<lparr>readFile := (\<lambda>n. Inr (Uint8Array []))\<rparr>"
  have a: "fetchFile ?e (file sample_video_entry) = Inr [4, 5]"
    by (simp add: sample_engine_def sample_video_def)
  have b: "writeFile ?e (inputName sample_video_entry) [4, 5] = Inr True"
    by (simp add: sample_engine_def)
  have c: "exec ?e (commandArgs sample_video_entry) = Inr 0"
    by (simp add: sample_engine_def)
  have d: "readFile ?e (outputName sample_video_entry) = Inr (Uint8Array [])"
    by simp
  have i: "1 < length sample_files" "id' (sample_files ! 1) = id' sample_video_entry"
    by (simp_all add: sample_files_eq)
  note t = empty_output_is_error [OF a b c d, of sample_files]
  note t3 = t [THEN conjunct2, THEN conjunct2, rule_format, OF i]
  from a b c d t t3 show ?thesis by (simp add: EmptyOutput_def)
qed

text \<open>
  C8 (the code departs from it). The lookup does not depend on the case of the format
  (\<open>getMimeType_toLowerCase\<close>), and a format that is neither in the table nor the name of
  an inherited property resolves to \<open>image/png\<close> (\<open>getMimeType_unknown\<close>). But the
  fallback table is an object literal, so for the format \<open>constructor\<close>, which is not in
  the format table, the lookup finds the inherited \<open>Object\<close> constructor, which is
  truthy, and \<open>getMimeType\<close> returns it instead of \<open>image/png\<close>.
\<close>

theorem getMimeType_constructor:
  "toLowerCase ''constructor'' \<notin> set (map value IMAGE_FORMATS) \<and>
   getMimeType ''constructor'' = Builtin ''Object'' \<and>
   getMimeType ''constructor'' \<noteq> Str ''image/png''"
  by (simp add: getMimeType_def IMAGE_FORMATS_def toLowerCase_def toLowerCase_char_def
      get_property_def mimeMap_def Object_prototype_def)

text \<open>
  C9. Removing an id leaves no entry with that id, whatever the statuses, and keeps
  exactly the other entries; with unique ids, removing the id of a row removes that row
  and nothing else. When a conversion settles, with success or with failure, for an id
  that no entry has, the list is unchanged; in particular settling after the removal of
  the converted entry's id changes nothing, and so does the settling event of the
  machine.
\<close>

theorem remove_then_settle:
  "fileId \<notin> set (map id' (removeFile fileId prev)) \<and>
   set (removeFile fileId prev) = {f \<in> set prev. id' f \<noteq> fileId} \<and>
   (distinct (map id' prev) \<and> i < length prev \<longrightarrow>
      removeFile (id' (prev ! i)) prev = take i prev @ drop (Suc i) prev) \<and>
   (id' fileObj \<notin> set (map id' prev) \<longrightarrow> settle fileObj res prev = prev) \<and>
   settle fileObj res (removeFile (id' fileObj) prev) = removeFile (id' fileObj) prev \<and>
   (step s (Settle k ffmpeg) = Some s' \<and> id' (inflight s ! k) \<notin> set (map id' (files s))
      \<longrightarrow> files s' = files s)"
proof -
  have "files s' = files s"
    if "step s (Settle k ffmpeg) = Some s'" "id' (inflight s ! k) \<notin> set (map id' (files s))"
    using step_files(3) [OF that(1)] that(2) by (simp add: settle_absent)
  moreover have "set (removeFile fileId prev) = {f \<in> set prev. id' f \<noteq> fileId}"
    by (auto simp: removeFile_def)
  ultimately show ?thesis
    using removeFile_ids [of fileId prev] removeFile_ids [of "id' fileObj" prev]
    by (simp add: settle_absent removeFile_nth)
qed

theorem remove_then_settle_witness:
  "distinct (map id' sample_files) \<and> 0 < length sample_files \<and>
   removeFile (id' (sample_files ! 0)) sample_files = [sample_video_entry] \<and>
   id' sample_image_entry \<notin> set (map id' [sample_video_entry]) \<and>
   settle sample_image_entry (Inr ''blob:out'') [sample_video_entry] = [sample_video_entry] \<and>
   step \<lparr>files = [sample_video_entry], inflight = [sample_image_entry]\<rparr> (Settle 0 sample_engine)
     = Some \<lparr>files = [sample_video_entry], inflight = []\<rparr> \<and>
   id' (inflight \<lparr>files = [sample_video_entry], inflight = [sample_image_entry]\<rparr> ! 0)
     \<notin> set (map id' (files \<lparr>files = [sample_video_entry], inflight = [sample_image_entry]\<rparr>)) \<and>
   files \<lparr>files = [sample_video_entry], inflight = []\<rparr>
     = files \<lparr>files = [sample_video_entry], inflight = [sample_image_entry]\<rparr>"
proof -
  let ?s = "\<lparr>files = [sample_video_entry], inflight = [sample_image_entry]\<rparr>"
  let ?s' = "\<lparr>files = [sample_video_entry], inflight = []\<rparr>"
  have d: "distinct (map id' sample_files) \<and> 0 < length sample_files"
    by (simp add: sample_files_eq)
  have a: "id' sample_image_entry \<notin> set (map id' [sample_video_entry])" by simp
  have b: "id' (inflight ?s ! 0) \<notin> set (map id' (files ?s))" by simp
  have st: "step ?s (Settle 0 sample_engine) = Some ?s'"
    by (simp add: settle_absent)
  note t = remove_then_settle [where fileObj = sample_image_entry and res = "Inr ''blob:out''"
      and prev = "[sample_video_entry]" and s = ?s and k = 0 and ffmpeg = sample_engine and s' = ?s']
  note t4 = t [THEN conjunct2, THEN conjunct2, THEN conjunct2, THEN conjunct1, rule_format, OF a]
  note t6 = t [THEN conjunct2, THEN conjunct2, THEN conjunct2, THEN conjunct2, THEN conjunct2,
      rule_format, OF conjI [OF st b]]
  note t3 = remove_then_settle [where prev = sample_files and i = 0, THEN conjunct2, THEN conjunct2,
      THEN conjunct1, rule_format, OF d]
  from t3 have r: "removeFile (id' (sample_files ! 0)) sample_files = [sample_video_entry]"
    by (simp add: sample_files_eq)
  show ?thesis
    using d [THEN conjunct1] d [THEN conjunct2] r a t4 st b t6 by - (intro conjI; assumption)
qed

text \<open>
  C10. Each of the four list updates (to \<open>converting\<close>, to \<open>completed\<close>, to \<open>error\<close>, and
  the change of the output format) keeps the length of the list and the ids, leaves every
  entry whose id is not the target id exactly as it was, and, when the ids are unique,
  changes at most one position.
\<close>

theorem updates_frame:
  assumes "u \<in> {markConverting fileId, markCompleted fileId url, markError fileId,
                 updateOutputFormat fileId format}"
  shows "length (u prev) = length prev \<and>
         map id' (u prev) = map id' prev \<and>
         (\<forall>i < length prev. id' (prev ! i) \<noteq> fileId \<longrightarrow> u prev ! i = prev ! i) \<and>
         (distinct (map id' prev) \<longrightarrow>
            (\<forall>i < length prev. \<forall>j < length prev.
               u prev ! i \<noteq> prev ! i \<longrightarrow> u prev ! j \<noteq> prev ! j \<longrightarrow> i = j))"
proof -
  have frame: "\<forall>i < length prev. id' (prev ! i) \<noteq> fileId \<longrightarrow> u prev ! i = prev ! i"
    using assms
    by (auto simp: nth_markConverting nth_markCompleted nth_markError nth_updateOutputFormat)
  have len: "length (u prev) = length prev" and ids: "map id' (u prev) = map id' prev"
    using assms by auto
  have "i = j" if d: "distinct (map id' prev)" and i: "i < length prev" and j: "j < length prev"
    and ci: "u prev ! i \<noteq> prev ! i" and cj: "u prev ! j \<noteq> prev ! j" for i j
  proof -
    from frame i ci have "id' (prev ! i) = fileId" by blast
    moreover from frame j cj have "id' (prev ! j) = fileId" by blast
    ultimately show ?thesis using distinct_ids_eq [OF d i j] by simp
  qed
  with frame len ids show ?thesis by blast
qed

theorem updates_frame_witness:
  "markError ''a1'' \<in> {markConverting ''a1'', markCompleted ''a1'' ''blob:out'', markError ''a1'',
                        updateOutputFormat ''a1'' ''jpg''} \<and>
   1 < length sample_files \<and> id' (sample_files ! 1) \<noteq> ''a1'' \<and>
   markError ''a1'' sample_files ! 1 = sample_files ! 1 \<and>
   status (markError ''a1'' sample_files ! 0) = Error"
proof -
  have m: "markError ''a1'' \<in> {markConverting ''a1'', markCompleted ''a1'' ''blob:out'',
      markError ''a1'', updateOutputFormat ''a1'' ''jpg''}" by simp
  have h: "1 < length sample_files" "id' (sample_files ! 1) \<noteq> ''a1''"
    by (simp_all add: sample_files_eq)
  note t = updates_frame [OF m, of sample_files, THEN conjunct2, THEN conjunct2, THEN conjunct1,
      rule_format, OF h]
  have "status (markError ''a1'' sample_files ! 0) = Error"
    by (simp add: sample_files_eq markError_def)
  with m h t show ?thesis by simp
qed

end
